theory Spec2Isabelle
  imports Main "HOL-Library.Sublist" "HOL-Library.Word"
begin

section \<open>Shared vocabulary\<close>

text \<open>
  Values thrown by the TypeScript code: an \<open>Error\<close> built with a message, or the
  \<open>TypeError\<close> the runtime raises when a property of \<open>undefined\<close> is read or a
  non-function is called.
\<close>

datatype js_error = Error string | TypeError string

text \<open>Decimal rendering of integers, as template literals and \<open>%d\<close> produce it.\<close>

definition digit :: "nat \<Rightarrow> char" where
  "digit d = ''0123456789'' ! d"

function show_nat :: "nat \<Rightarrow> string" where
  "show_nat n = (if n < 10 then [digit n] else show_nat (n div 10) @ [digit (n mod 10)])"
  by pat_completeness auto
termination
  by (relation "measure id") auto

declare show_nat.simps [simp del]

definition show_int :: "int \<Rightarrow> string" where
  "show_int i = (if i < 0 then CHR ''-'' # show_nat (nat (- i)) else show_nat (nat i))"

section \<open>MoonbeamEvmJsonRPCBlockRepository.getBlockHeight\<close>

definition GROW_SLEEP_TIME :: nat where
  "GROW_SLEEP_TIME = 350"

definition MAX_ATTEMPTS :: nat where
  "MAX_ATTEMPTS = 10"

text \<open>
  What one pass through the \<open>try\<close> block meets after the sleep: \<open>super.getBlock\<close>
  throws, the \<open>moon_isBlockFinalized\<close> request throws, or the request answers with a
  \<open>result\<close> field that is a boolean or absent (\<open>result ?? false\<close>).
\<close>

datatype attempt = GetBlockThrows js_error | PostThrows js_error | Answer "bool option"

text \<open>
  The local variables of \<open>getBlockHeight\<close>, together with the two observable effects of
  the loop: the durations handed to \<open>this.sleep\<close> and the errors handed to
  \<open>this.handleError\<close>, both in call order.
\<close>

record poll_state =
  isBlockFinalized :: bool
  sleepTime :: nat
  attempts :: nat
  slept :: "nat list"
  handled :: "js_error list"

definition initial_poll_state :: poll_state where
  "initial_poll_state =
     \<lparr>isBlockFinalized = False, sleepTime = 100, attempts = 0, slept = [], handled = []\<rparr>"

definition catch_branch :: "js_error \<Rightarrow> poll_state \<Rightarrow> poll_state" where
  "catch_branch e s =
     s\<lparr>handled := handled s @ [e],
       sleepTime := sleepTime s + GROW_SLEEP_TIME,
       attempts := attempts s + 1\<rparr>"

definition loop_body :: "attempt \<Rightarrow> poll_state \<Rightarrow> poll_state" where
  "loop_body a s =
     (let s1 = s\<lparr>slept := slept s @ [sleepTime s]\<rparr>
      in case a of
           GetBlockThrows e \<Rightarrow> catch_branch e s1
         | PostThrows e \<Rightarrow> catch_branch e s1
         | Answer r \<Rightarrow>
             s1\<lparr>isBlockFinalized := (case r of None \<Rightarrow> False | Some b \<Rightarrow> b),
                sleepTime := sleepTime s1 + GROW_SLEEP_TIME,
                attempts := attempts s1 + 1\<rparr>)"

lemma attempts_loop_body [simp]: "attempts (loop_body a s) = attempts s + 1"
  by (cases a) (simp_all add: loop_body_def catch_branch_def)

text \<open>
  The \<open>while\<close> loop. The node's answers are given as a function of the number of
  attempts already made, so \<open>rpc i\<close> is what the \<open>(i+1)\<close>-th pass meets.
\<close>

function poll_loop :: "(nat \<Rightarrow> attempt) \<Rightarrow> poll_state \<Rightarrow> poll_state" where
  "poll_loop rpc s =
     (if \<not> isBlockFinalized s \<and> attempts s \<le> MAX_ATTEMPTS
      then poll_loop rpc (loop_body (rpc (attempts s)) s)
      else s)"
  by pat_completeness auto
termination
  by (relation "measure (\<lambda>(rpc, s). Suc MAX_ATTEMPTS - attempts s)") auto

declare poll_loop.simps [simp del]

text \<open>
  \<open>getBlockHeight\<close>: the first argument is the outcome of \<open>super.getBlockHeight\<close>
  (a throw there leaves the function before the loop). The chain configuration only
  supplies the address, timeout and retries of the request, so it does not appear. The
  final loop state is returned beside the result so that the sleeps can be observed; the
  \<open>logger.error\<close> call before the final throw is not recorded.
\<close>

definition getBlockHeight ::
  "js_error + int \<Rightarrow> (nat \<Rightarrow> attempt) \<Rightarrow> poll_state \<times> (js_error + int)" where
  "getBlockHeight super_height rpc =
     (case super_height of
        Inl e \<Rightarrow> (initial_poll_state, Inl e)
      | Inr blockNumber \<Rightarrow>
          (let s = poll_loop rpc initial_poll_state
           in if attempts s > MAX_ATTEMPTS
              then (s, Inl (Error (''The block '' @ show_int blockNumber @ '' never ended'')))
              else (s, Inr blockNumber)))"

text \<open>An attempt confirms finality when the request answers \<open>result: true\<close>.\<close>

definition confirms :: "attempt \<Rightarrow> bool" where
  "confirms a = (a = Answer (Some True))"

text \<open>The no-progress answer an attempt is compared with: a plain \<open>false\<close>.\<close>

definition as_no_progress :: "attempt \<Rightarrow> attempt" where
  "as_no_progress a =
     (case a of GetBlockThrows e \<Rightarrow> Answer (Some False)
              | PostThrows e \<Rightarrow> Answer (Some False)
              | Answer r \<Rightarrow> Answer r)"

text \<open>The part of the loop state that does not record error logging.\<close>

definition progress :: "poll_state \<Rightarrow> bool \<times> nat \<times> nat \<times> nat list" where
  "progress s = (isBlockFinalized s, sleepTime s, attempts s, slept s)"

text \<open>The errors an attempt hands to \<open>handleError\<close>: the one it throws, if it throws.\<close>

definition thrown :: "attempt \<Rightarrow> js_error list" where
  "thrown a = (case a of GetBlockThrows e \<Rightarrow> [e] | PostThrows e \<Rightarrow> [e] | Answer r \<Rightarrow> [])"

text \<open>
  What holds of the loop state before and after every pass: every attempt made so far has
  slept, grown the sleep time and handed over its error, none but the last can have
  confirmed, and the budget bounds the count.
\<close>

definition poll_invariant :: "(nat \<Rightarrow> attempt) \<Rightarrow> poll_state \<Rightarrow> bool" where
  "poll_invariant rpc s =
     (slept s = map (\<lambda>j. 100 + j * GROW_SLEEP_TIME) [0..<attempts s] \<and>
      sleepTime s = 100 + attempts s * GROW_SLEEP_TIME \<and>
      handled s = concat (map (\<lambda>i. thrown (rpc i)) [0..<attempts s]) \<and>
      (\<forall>i. Suc i < attempts s \<longrightarrow> \<not> confirms (rpc i)) \<and>
      isBlockFinalized s = (0 < attempts s \<and> confirms (rpc (attempts s - 1))) \<and>
      attempts s \<le> Suc MAX_ATTEMPTS)"

text \<open>Two nodes for the examples: one confirms at the third attempt, one never does.\<close>

definition example_rpc :: "nat \<Rightarrow> attempt" where
  "example_rpc i =
     (if i = 0 then Answer (Some False)
      else if i = 1 then PostThrows (Error ''timeout'')
      else Answer (Some True))"

definition never_final_rpc :: "nat \<Rightarrow> attempt" where
  "never_final_rpc i = (if even i then Answer None else GetBlockThrows (Error ''timeout''))"

section \<open>divideIntoBatches\<close>

text \<open>
  A JavaScript \<open>Set\<close> iterates in insertion order and holds no value twice; it is
  modelled by the list of its elements in that order. \<open>new Set(array)\<close> adds the
  elements of the array one after the other.
\<close>

definition Set_add :: "'a list \<Rightarrow> 'a \<Rightarrow> 'a list" where
  "Set_add s x = (if x \<in> set s then s else s @ [x])"

definition new_Set :: "'a list \<Rightarrow> 'a list" where
  "new_Set xs = foldl Set_add [] xs"

text \<open>
  The callback of \<open>set.forEach\<close>, acting on the pair \<open>(batches, batch)\<close>. The batch
  size is a whole number, as the length it is compared with is.
\<close>

definition forEach_body :: "nat \<Rightarrow> 'a list list \<times> 'a list \<Rightarrow> 'a \<Rightarrow> 'a list list \<times> 'a list" where
  "forEach_body batchSize st item =
     (let batches = fst st; batch = snd st @ [item]
      in if length batch = batchSize then (batches @ [new_Set batch], []) else (batches, batch))"

definition divideIntoBatches :: "'a list \<Rightarrow> nat \<Rightarrow> 'a list list" where
  "divideIntoBatches items batchSize =
     (let st = foldl (forEach_body batchSize) ([], []) items;
          batches = fst st; batch = snd st
      in if length batch > 0 then batches @ [new_Set batch] else batches)"

section \<open>aptosLogMessagePublishedMapper\<close>

text \<open>
  The entity types are declared outside the files at hand. The records below hold the
  fields the mapper reads, each present with the type the mapper uses it at. Field names
  of the inputs carry a prefix (\<open>tx_\<close>, \<open>ev_\<close>, \<open>data_\<close>); those of the produced
  event keep the names of the source.
\<close>

record aptos_event_data =
  data_sender :: string
  data_sequence :: string
  data_payload :: string
  data_nonce :: string
  data_consistencyLevel :: nat
  data_timestamp :: nat

record aptos_event =
  ev_type :: string
  ev_data :: aptos_event_data

record AptosTransaction =
  tx_events :: "aptos_event list"
  tx_payload_function :: string
  tx_hash :: string
  tx_blockHeight :: int

record 'n LogMessagePublished =
  sender :: string
  sequence :: 'n
  payload :: string
  nonce :: 'n
  consistencyLevel :: nat

record 'a LogFoundEvent =
  name :: string
  address :: "string option"
  chainId :: nat
  txHash :: string
  blockHeight :: int
  blockTime :: nat
  attributes :: 'a

definition REDEEM_EVENT_TAIL :: string where
  "REDEEM_EVENT_TAIL = ''::state::WormholeMessage''"

definition CHAIN_ID_APTOS :: nat where
  "CHAIN_ID_APTOS = 22"

text \<open>\<open>String.prototype.includes\<close>: the argument occurs somewhere in the string.\<close>

fun includes_str :: "string \<Rightarrow> string \<Rightarrow> bool" where
  "includes_str [] t = (t = [])"
| "includes_str (c # cs) t = (prefix t (c # cs) \<or> includes_str cs t)"

text \<open>
  \<open>String.prototype.split\<close> for a non-empty separator (the sources split at
  \<open>"::"\<close> only): \<open>cur\<close> collects the segment being read.
\<close>

function split_from :: "string \<Rightarrow> string \<Rightarrow> string \<Rightarrow> string list" where
  "split_from sep cur [] = [cur]"
| "split_from sep cur (c # cs) =
     (if sep \<noteq> [] \<and> prefix sep (c # cs)
      then cur # split_from sep [] (drop (length sep) (c # cs))
      else split_from sep (cur @ [c]) cs)"
  by pat_completeness auto
termination
  by (relation "measure (\<lambda>(sep, cur, s). length s)") auto

definition split :: "string \<Rightarrow> string \<Rightarrow> string list" where
  "split s sep = split_from sep [] s"

text \<open>Reading index 0 of an array: \<open>undefined\<close> (here \<open>None\<close>) when the array is empty.\<close>

definition at0 :: "'a list \<Rightarrow> 'a option" where
  "at0 xs = (case xs of [] \<Rightarrow> None | x # _ \<Rightarrow> Some x)"

text \<open>\<open>String.prototype.padStart\<close>.\<close>

definition padStart :: "string \<Rightarrow> nat \<Rightarrow> string \<Rightarrow> string" where
  "padStart s targetLength padString =
     (if targetLength \<le> length s \<or> padString = [] then s
      else take (targetLength - length s)
             (concat (replicate (targetLength - length s) padString)) @ s)"

text \<open>
  The mapper. \<open>Number\<close> is the JavaScript conversion of a string to a number, passed
  in. A result \<open>Inl\<close> is a throw; \<open>Inr None\<close> would be the return value
  \<open>undefined\<close> that the declared return type allows. The \<open>logger.info\<close> call has no
  influence on the result and is left out.
\<close>

definition aptosLogMessagePublishedMapper ::
  "(string \<Rightarrow> 'n) \<Rightarrow> AptosTransaction \<Rightarrow> js_error + ('n LogMessagePublished) LogFoundEvent option" where
  "aptosLogMessagePublishedMapper Number transaction =
     (case find (\<lambda>tx. includes_str (ev_type tx) REDEEM_EVENT_TAIL) (tx_events transaction) of
        None \<Rightarrow> Inl (TypeError ''Cannot read properties of undefined (reading 'data')'')
      | Some wormholeEvent \<Rightarrow>
          (let wormholeData = ev_data wormholeEvent;
               address = at0 (split (tx_payload_function transaction) ''::'');
               sender = padStart (data_sender wormholeData) 64 ''0''
           in Inr (Some
                \<lparr>name = ''log-message-published'',
                 address = address,
                 chainId = CHAIN_ID_APTOS,
                 txHash = tx_hash transaction,
                 blockHeight = tx_blockHeight transaction,
                 blockTime = data_timestamp wormholeData,
                 attributes =
                   \<lparr>sender = sender,
                    sequence = Number (data_sequence wormholeData),
                    payload = data_payload wormholeData,
                    nonce = Number (data_nonce wormholeData),
                    consistencyLevel = data_consistencyLevel wormholeData\<rparr>\<rparr>)))"

text \<open>Example transactions: a coin transfer, and a message publication.\<close>

definition example_data :: aptos_event_data where
  "example_data =
     \<lparr>data_sender = ''1'', data_sequence = ''146094'', data_payload = ''0x01'',
      data_nonce = ''76704'', data_consistencyLevel = 0, data_timestamp = 1709638693\<rparr>"

definition transfer_tx :: AptosTransaction where
  "transfer_tx =
     \<lparr>tx_events = [\<lparr>ev_type = ''0x1::coin::WithdrawEvent'', ev_data = example_data\<rparr>],
      tx_payload_function = ''0x1::coin::transfer'',
      tx_hash = ''0x99f9cd1e'',
      tx_blockHeight = 153517771\<rparr>"

definition publish_tx :: AptosTransaction where
  "publish_tx =
     \<lparr>tx_events =
        [\<lparr>ev_type = ''0x1::coin::WithdrawEvent'', ev_data = example_data\<lparr>data_sender := ''7''\<rparr>\<rparr>,
         \<lparr>ev_type = ''0x5bc1::state::WormholeMessage'', ev_data = example_data\<rparr>],
      tx_payload_function = ''0x5bc1::wormhole::publish_message'',
      tx_hash = ''0x99f9cd1e'',
      tx_blockHeight = 153517771\<rparr>"

section \<open>StaticJobRepository\<close>

text \<open>
  The job definition as the repository reads it. A configuration object is the list of
  its properties. Field names carry a prefix where the plain name is taken
  (\<open>id\<close>, \<open>chain\<close>) or occurs in two objects.
\<close>

type_synonym props = "(string \<times> string) list"

record source_def =
  source_action :: string
  source_records :: string
  source_commitment :: string
  source_chain :: string
  source_config :: props

record handler_def =
  action :: string
  target :: string
  mapper :: string
  config :: props

record JobDefinition =
  jd_id :: string
  jd_chain :: string
  jd_chainId :: nat
  jd_source :: source_def
  jd_handlers :: "handler_def list"

text \<open>The fields of the repository that the wiring reads; both are set by the constructor.\<close>

record StaticJobRepository =
  environment :: string
  dryRun :: bool

definition new_StaticJobRepository :: "string \<Rightarrow> bool \<Rightarrow> StaticJobRepository" where
  "new_StaticJobRepository env dry = \<lparr>environment = env, dryRun = dry\<rparr>"

text \<open>
  The polling actions that the source factories construct, with the arguments taken
  from the job definition and from the repository.
\<close>

datatype RunPollingJob =
    PollEvm string string string string props
  | PollSolanaTransactions string props
  | PollSuiTransactions string props
  | PollAptos string string string props

definition pollEvm :: "StaticJobRepository \<Rightarrow> JobDefinition \<Rightarrow> RunPollingJob" where
  "pollEvm repo jobDef =
     PollEvm (source_chain (jd_source jobDef)) (jd_id jobDef) (environment repo)
       (source_records (jd_source jobDef)) (source_config (jd_source jobDef))"

definition pollSolanaTransactions :: "StaticJobRepository \<Rightarrow> JobDefinition \<Rightarrow> RunPollingJob" where
  "pollSolanaTransactions repo jobDef =
     PollSolanaTransactions (jd_id jobDef) (source_config (jd_source jobDef))"

definition pollSuiTransactions :: "StaticJobRepository \<Rightarrow> JobDefinition \<Rightarrow> RunPollingJob" where
  "pollSuiTransactions repo jobDef =
     PollSuiTransactions (jd_id jobDef) (source_config (jd_source jobDef))"

definition pollAptos :: "StaticJobRepository \<Rightarrow> JobDefinition \<Rightarrow> RunPollingJob" where
  "pollAptos repo jobDef =
     PollAptos (jd_id jobDef) (environment repo)
       (source_records (jd_source jobDef)) (source_config (jd_source jobDef))"

definition sources :: "StaticJobRepository \<Rightarrow> string \<rightharpoonup> (JobDefinition \<Rightarrow> RunPollingJob)" where
  "sources repo =
     map_of [(''PollEvm'', pollEvm repo),
             (''PollSolanaTransactions'', pollSolanaTransactions repo),
             (''PollSuiTransactions'', pollSuiTransactions repo),
             (''PollAptos'', pollAptos repo)]"

text \<open>
  The mapper functions are imported; the registry holds them under their names. (The
  constructor for the Aptos mapper drops the suffix, the full name being that of its
  embedding above.)
\<close>

datatype mapper_fn =
    evmLogMessagePublishedMapper
  | evmRedeemedTransactionFoundMapper
  | solanaLogMessagePublishedMapper
  | solanaTransferRedeemedMapper
  | suiLogMessagePublishedMapper
  | suiRedeemedTransactionFoundMapper
  | aptosLogMessagePublished
  | aptosRedeemedTransactionFoundMapper

definition mappers :: "string \<rightharpoonup> mapper_fn" where
  "mappers =
     map_of [(''evmLogMessagePublishedMapper'', evmLogMessagePublishedMapper),
             (''evmRedeemedTransactionFoundMapper'', evmRedeemedTransactionFoundMapper),
             (''solanaLogMessagePublishedMapper'', solanaLogMessagePublishedMapper),
             (''solanaTransferRedeemedMapper'', solanaTransferRedeemedMapper),
             (''suiLogMessagePublishedMapper'', suiLogMessagePublishedMapper),
             (''suiRedeemedTransactionFoundMapper'', suiRedeemedTransactionFoundMapper),
             (''aptosLogMessagePublishedMapper'', aptosLogMessagePublished),
             (''aptosRedeemedTransactionFoundMapper'', aptosRedeemedTransactionFoundMapper)]"

text \<open>
  A target is a function that takes the events; what it does with them is its list of
  effects. The dummy target writes one log line; the SNS target is
  \<open>snsRepo.asTarget()\<close>, which hands the events to the SNS repository.
\<close>

datatype target_fn = snsTarget | dummyTarget

datatype 'e target_effect = LogInfo string | SnsPublish "'e list"

definition run_target :: "target_fn \<Rightarrow> 'e list \<Rightarrow> 'e target_effect list" where
  "run_target t events =
     (case t of
        dummyTarget \<Rightarrow> [LogInfo (''[target dummy] Got '' @ show_nat (length events) @ '' events'')]
      | snsTarget \<Rightarrow> [SnsPublish events])"

definition targets :: "string \<rightharpoonup> target_fn" where
  "targets = map_of [(''sns'', snsTarget), (''dummy'', dummyTarget)]"

text \<open>
  A handler is the bound \<open>handle\<close> method of an instance of one of the five handler
  classes; the instance is given by the arguments of its constructor.
\<close>

datatype handler_class =
    HandleEvmLogs
  | HandleEvmTransactions
  | HandleSolanaTransactions
  | HandleSuiTransactions
  | HandleAptosTransactions

record handler_config =
  cfg_props :: props
  cfg_commitment :: string
  cfg_chainId :: nat
  cfg_chain :: string
  cfg_id :: string

record Handler =
  handler_class :: handler_class
  handler_config :: handler_config
  handler_mapper :: mapper_fn
  handler_target :: target_fn

definition getTarget :: "StaticJobRepository \<Rightarrow> string \<Rightarrow> js_error + target_fn" where
  "getTarget repo target_name =
     (case targets (if dryRun repo then ''dummy'' else target_name) of
        None \<Rightarrow> Inl (Error (''Target '' @ target_name @ '' not found''))
      | Some maybeTarget \<Rightarrow> Inr maybeTarget)"

text \<open>
  The two EVM factories look the target up themselves and call the result under a
  non-null assertion; calling \<open>undefined\<close> is a \<open>TypeError\<close>.
\<close>

definition get_target_unchecked :: "StaticJobRepository \<Rightarrow> string \<Rightarrow> js_error + target_fn" where
  "get_target_unchecked repo target_name =
     (case targets (if dryRun repo then ''dummy'' else target_name) of
        None \<Rightarrow> Inl (TypeError ''this.targets.get(...) is not a function'')
      | Some t \<Rightarrow> Inr t)"

definition new_handler ::
  "handler_class \<Rightarrow> handler_config \<Rightarrow> mapper_fn \<Rightarrow> js_error + target_fn \<Rightarrow> js_error + Handler" where
  "new_handler cls cfg mp tgt =
     (case tgt of
        Inl e \<Rightarrow> Inl e
      | Inr t \<Rightarrow> Inr \<lparr>handler_class = cls, handler_config = cfg, handler_mapper = mp,
                       handler_target = t\<rparr>)"

definition handleEvmLogs ::
  "StaticJobRepository \<Rightarrow> handler_config \<Rightarrow> string \<Rightarrow> mapper_fn \<Rightarrow> js_error + Handler" where
  "handleEvmLogs repo cfg target_name mp =
     new_handler HandleEvmLogs cfg mp (get_target_unchecked repo target_name)"

definition handleEvmTransactions ::
  "StaticJobRepository \<Rightarrow> handler_config \<Rightarrow> string \<Rightarrow> mapper_fn \<Rightarrow> js_error + Handler" where
  "handleEvmTransactions repo cfg target_name mp =
     new_handler HandleEvmTransactions cfg mp (get_target_unchecked repo target_name)"

definition handleSolanaTx ::
  "StaticJobRepository \<Rightarrow> handler_config \<Rightarrow> string \<Rightarrow> mapper_fn \<Rightarrow> js_error + Handler" where
  "handleSolanaTx repo cfg target_name mp =
     new_handler HandleSolanaTransactions cfg mp (getTarget repo target_name)"

definition handleSuiTx ::
  "StaticJobRepository \<Rightarrow> handler_config \<Rightarrow> string \<Rightarrow> mapper_fn \<Rightarrow> js_error + Handler" where
  "handleSuiTx repo cfg target_name mp =
     new_handler HandleSuiTransactions cfg mp (getTarget repo target_name)"

definition handleAptosTx ::
  "StaticJobRepository \<Rightarrow> handler_config \<Rightarrow> string \<Rightarrow> mapper_fn \<Rightarrow> js_error + Handler" where
  "handleAptosTx repo cfg target_name mp =
     new_handler HandleAptosTransactions cfg mp (getTarget repo target_name)"

definition handlers ::
  "StaticJobRepository \<Rightarrow>
     string \<rightharpoonup> (handler_config \<Rightarrow> string \<Rightarrow> mapper_fn \<Rightarrow> js_error + Handler)" where
  "handlers repo =
     map_of [(''HandleEvmLogs'', handleEvmLogs repo),
             (''HandleEvmTransactions'', handleEvmTransactions repo),
             (''HandleSolanaTransactions'', handleSolanaTx repo),
             (''HandleSuiTransactions'', handleSuiTx repo),
             (''HandleAptosTransactions'', handleAptosTx repo)]"

definition getSource :: "StaticJobRepository \<Rightarrow> JobDefinition \<Rightarrow> js_error + RunPollingJob" where
  "getSource repo jobDef =
     (case sources repo (source_action (jd_source jobDef)) of
        None \<Rightarrow> Inl (Error (''Source '' @ source_action (jd_source jobDef) @ '' not found''))
      | Some src \<Rightarrow> Inr (src jobDef))"

text \<open>
  The configuration handed to a factory is \<open>{...handler.config, commitment, chainId, chain, id}\<close>:
  the four job-level properties replace properties of the same name in
  \<open>handler.config\<close>, whose other properties are kept.
\<close>

definition spread_rest :: "props \<Rightarrow> props" where
  "spread_rest ps =
     filter (\<lambda>kv. fst kv \<notin> set [''commitment'', ''chainId'', ''chain'', ''id'']) ps"

text \<open>One pass of the loop of \<open>getHandlers\<close>: the handler wired from one entry.\<close>

definition wire_handler ::
  "StaticJobRepository \<Rightarrow> JobDefinition \<Rightarrow> handler_def \<Rightarrow> js_error + Handler" where
  "wire_handler repo jobDef handler =
     (case handlers repo (action handler) of
        None \<Rightarrow> Inl (Error (''Handler '' @ action handler @ '' not found''))
      | Some maybeHandler \<Rightarrow>
          (case mappers (mapper handler) of
             None \<Rightarrow> Inl (Error (''Handler '' @ mapper handler @ '' not found''))
           | Some mp \<Rightarrow>
               maybeHandler
                 \<lparr>cfg_props = spread_rest (config handler),
                  cfg_commitment = source_commitment (jd_source jobDef),
                  cfg_chainId = jd_chainId jobDef,
                  cfg_chain = jd_chain jobDef,
                  cfg_id = jd_id jobDef\<rparr>
                 (target handler) mp))"

fun getHandlers_loop ::
  "StaticJobRepository \<Rightarrow> JobDefinition \<Rightarrow> handler_def list \<Rightarrow> Handler list \<Rightarrow> js_error + Handler list" where
  "getHandlers_loop repo jobDef [] result = Inr result"
| "getHandlers_loop repo jobDef (handler # rest) result =
     (case wire_handler repo jobDef handler of
        Inl e \<Rightarrow> Inl e
      | Inr h \<Rightarrow> getHandlers_loop repo jobDef rest (result @ [h]))"

definition getHandlers :: "StaticJobRepository \<Rightarrow> JobDefinition \<Rightarrow> js_error + Handler list" where
  "getHandlers repo jobDef = getHandlers_loop repo jobDef (jd_handlers jobDef) []"


text \<open>
  Example jobs. The second handler of \<open>example_job\<close> names a target that is not
  registered, and the handler configurations hold an \<open>id\<close> that the job's id replaces;
  \<open>unwired_job\<close> names, in addition, a source that is not registered.
\<close>

definition example_job :: JobDefinition where
  "example_job =
     \<lparr>jd_id = ''poll-log-message-published-aptos'',
      jd_chain = ''aptos'',
      jd_chainId = 22,
      jd_source =
        \<lparr>source_action = ''PollAptos'', source_records = ''GetAptosSequences'',
         source_commitment = ''finalized'', source_chain = ''aptos'', source_config = []\<rparr>,
      jd_handlers =
        [\<lparr>action = ''HandleAptosTransactions'', target = ''sns'',
          mapper = ''aptosLogMessagePublishedMapper'',
          config = [(''metricName'', ''process_source_event''), (''id'', ''shadowed'')]\<rparr>,
         \<lparr>action = ''HandleEvmLogs'', target = ''kafka'',
          mapper = ''evmLogMessagePublishedMapper'',
          config = [(''metricName'', ''process_source_event''), (''id'', ''shadowed'')]\<rparr>]\<rparr>"

definition example_config :: handler_config where
  "example_config =
     \<lparr>cfg_props = [(''metricName'', ''process_source_event'')],
      cfg_commitment = ''finalized'', cfg_chainId = 22, cfg_chain = ''aptos'',
      cfg_id = ''poll-log-message-published-aptos''\<rparr>"

definition unwired_job :: JobDefinition where
  "unwired_job = example_job\<lparr>jd_source := (jd_source example_job)\<lparr>source_action := ''PollCosmos''\<rparr>\<rparr>"

definition example_dry_handlers :: "Handler list" where
  "example_dry_handlers =
     [\<lparr>handler_class = HandleAptosTransactions, handler_config = example_config,
       handler_mapper = aptosLogMessagePublished, handler_target = dummyTarget\<rparr>,
      \<lparr>handler_class = HandleEvmLogs, handler_config = example_config,
       handler_mapper = evmLogMessagePublishedMapper, handler_target = dummyTarget\<rparr>]"

section \<open>Processor.Process\<close>

text \<open>
  Go errors: the sentinel errors of the parser package that \<open>Process\<close> names, any other
  error, and an error wrapping another one. \<open>errors.Is\<close> walks the chain of wrapped
  errors and compares each with the target.
\<close>

datatype go_error =
    ErrCallEndpoint
  | ErrNotFound
  | ErrInternalError
  | OtherError string
  | Wrapped string go_error

fun errors_Is :: "go_error \<Rightarrow> go_error \<Rightarrow> bool" where
  "errors_Is (Wrapped msg inner) sentinel = (Wrapped msg inner = sentinel \<or> errors_Is inner sentinel)"
| "errors_Is err sentinel = (err = sentinel)"

text \<open>The fields of the SDK's VAA that \<open>Process\<close> reads.\<close>

record VAA =
  vaa_EmitterChain :: "16 word"
  vaa_EmitterAddress :: "8 word list"
  vaa_Sequence :: "64 word"
  vaa_Payload :: "8 word list"
  vaa_Timestamp :: nat

record ParseVaaResponse =
  resp_AppID :: string
  resp_Result :: string

record ParsedVaaUpdate =
  ID :: string
  EmitterChain :: "16 word"
  EmitterAddr :: string
  Sequence :: string
  AppID :: string
  Result :: string
  Timestamp :: nat
  UpdatedAt :: nat

text \<open>
  What \<open>Process\<close> calls outside the file: the SDK (\<open>vaa.Unmarshal\<close>, the \<open>String\<close>
  methods of addresses and chain ids, \<open>MessageID\<close>), the parser client, the repository
  and the clock.
\<close>

record collaborators =
  Unmarshal :: "8 word list \<Rightarrow> go_error + VAA"
  Address_String :: "8 word list \<Rightarrow> string"
  ChainID_String :: "16 word \<Rightarrow> string"
  MessageID :: "VAA \<Rightarrow> string"
  Parse :: "16 word \<Rightarrow> string \<Rightarrow> string \<Rightarrow> 8 word list \<Rightarrow> go_error + ParseVaaResponse"
  UpsertParsedVaa :: "ParsedVaaUpdate \<Rightarrow> go_error option"
  time_Now :: nat

datatype alert_key = AlertKeyVaaPayloadParserError | AlertKeyInsertParsedVaaError

text \<open>The calls \<open>Process\<close> makes on metrics, alerts, logger and repository, in order.\<close>

datatype effect =
    IncVaaPayloadParserRequestCount "16 word"
  | IncVaaPayloadParserNotFoundCount "16 word"
  | IncVaaPayloadParserErrorCount "16 word"
  | IncVaaPayloadParserSuccessCount "16 word"
  | IncVaaParsed "16 word"
  | IncVaaParsedInserted "16 word"
  | CreateAndSend alert_key "(string \<times> string) list" go_error
  | LoggerInfo string
  | LoggerError string
  | UpsertCall ParsedVaaUpdate

text \<open>
  \<open>Process\<close> returns the pair of Go, \<open>(*ParsedVaaUpdate, error)\<close>, each component
  \<open>None\<close> for \<open>nil\<close>, beside the calls it made.
\<close>

definition Process ::
  "collaborators \<Rightarrow> 8 word list \<Rightarrow> effect list \<times> (ParsedVaaUpdate option \<times> go_error option)" where
  "Process p vaaBytes =
     (case Unmarshal p vaaBytes of
        Inl err \<Rightarrow> ([], (None, Some err))
      | Inr vaa \<Rightarrow>
          (let chainID = vaa_EmitterChain vaa;
               emitterAddress = Address_String p (vaa_EmitterAddress vaa);
               sequenceStr = show_nat (unat (vaa_Sequence vaa));
               calls = [IncVaaPayloadParserRequestCount chainID]
           in case Parse p chainID emitterAddress sequenceStr (vaa_Payload vaa) of
                Inl err \<Rightarrow>
                  (let calls = calls @
                         [if errors_Is err ErrNotFound
                          then IncVaaPayloadParserNotFoundCount chainID
                          else IncVaaPayloadParserErrorCount chainID]
                   in if errors_Is err ErrInternalError \<or> errors_Is err ErrCallEndpoint
                      then (calls @
                              [CreateAndSend AlertKeyVaaPayloadParserError
                                 [(''chainID'', ChainID_String p (vaa_EmitterChain vaa)),
                                  (''emitterAddress'', emitterAddress),
                                  (''sequence'', sequenceStr)] err],
                            (None, Some err))
                      else (calls @ [LoggerInfo ''VAA cannot be parsed''], (None, None)))
              | Inr vaaParseResponse \<Rightarrow>
                  (let calls = calls @
                         [IncVaaPayloadParserSuccessCount chainID, IncVaaParsed chainID];
                       vaaParsed =
                         \<lparr>ID = MessageID p vaa,
                          EmitterChain = chainID,
                          EmitterAddr = emitterAddress,
                          Sequence = sequenceStr,
                          AppID = resp_AppID vaaParseResponse,
                          Result = resp_Result vaaParseResponse,
                          Timestamp = vaa_Timestamp vaa,
                          UpdatedAt = time_Now p\<rparr>
                   in case UpsertParsedVaa p vaaParsed of
                        Some err \<Rightarrow>
                          (calls @
                             [UpsertCall vaaParsed,
                              LoggerError ''Error inserting vaa in repository'',
                              CreateAndSend AlertKeyInsertParsedVaaError
                                [(''chainID'', ChainID_String p (vaa_EmitterChain vaa)),
                                 (''emitterAddress'', emitterAddress),
                                 (''sequence'', sequenceStr),
                                 (''appID'', resp_AppID vaaParseResponse)] err],
                           (None, Some err))
                      | None \<Rightarrow>
                          (calls @
                             [UpsertCall vaaParsed,
                              IncVaaParsedInserted chainID,
                              LoggerInfo ''parsed VAA was successfully persisted''],
                           (Some vaaParsed, None)))))"

text \<open>
  The arguments of the parser call and the update handed to the repository, as
  \<open>Process\<close> builds them from a VAA.
\<close>

definition parse_call :: "collaborators \<Rightarrow> VAA \<Rightarrow> go_error + ParseVaaResponse" where
  "parse_call p vaa =
     Parse p (vaa_EmitterChain vaa) (Address_String p (vaa_EmitterAddress vaa))
       (show_nat (unat (vaa_Sequence vaa))) (vaa_Payload vaa)"

definition parsed_update :: "collaborators \<Rightarrow> VAA \<Rightarrow> ParseVaaResponse \<Rightarrow> ParsedVaaUpdate" where
  "parsed_update p vaa resp =
     \<lparr>ID = MessageID p vaa,
      EmitterChain = vaa_EmitterChain vaa,
      EmitterAddr = Address_String p (vaa_EmitterAddress vaa),
      Sequence = show_nat (unat (vaa_Sequence vaa)),
      AppID = resp_AppID resp,
      Result = resp_Result resp,
      Timestamp = vaa_Timestamp vaa,
      UpdatedAt = time_Now p\<rparr>"

text \<open>Example collaborators, with the outcomes of the parser call and of the upsert given.\<close>

definition example_vaa :: VAA where
  "example_vaa =
     \<lparr>vaa_EmitterChain = 22, vaa_EmitterAddress = [1], vaa_Sequence = 146094,
      vaa_Payload = [1, 2, 3], vaa_Timestamp = 1709638693\<rparr>"

definition example_collaborators ::
  "go_error + ParseVaaResponse \<Rightarrow> go_error option \<Rightarrow> collaborators" where
  "example_collaborators parsed upserted =
     \<lparr>Unmarshal = (\<lambda>bytes. if bytes = [] then Inl (OtherError ''EOF'') else Inr example_vaa),
      Address_String = (\<lambda>a. ''0000000000000000000000000000000000000000000000000000000000000001''),
      ChainID_String = (\<lambda>c. ''aptos''),
      MessageID = (\<lambda>v. ''22/0000000000000000000000000000000000000000000000000000000000000001/146094''),
      Parse = (\<lambda>c a s b. parsed),
      UpsertParsedVaa = (\<lambda>u. upserted),
      time_Now = 1709638700\<rparr>"

section \<open>Properties of the finality polling\<close>

lemma loop_body_not_confirmed:
  "\<not> confirms a \<Longrightarrow> \<not> isBlockFinalized s \<Longrightarrow>
     progress (loop_body a s) =
       (False, sleepTime s + GROW_SLEEP_TIME, attempts s + 1, slept s @ [sleepTime s])"
  by (cases a)
     (auto simp: loop_body_def catch_branch_def progress_def confirms_def split: option.splits)

lemma loop_body_confirmed:
  "confirms a \<Longrightarrow>
     progress (loop_body a s) =
       (True, sleepTime s + GROW_SLEEP_TIME, attempts s + 1, slept s @ [sleepTime s])"
  by (simp add: loop_body_def progress_def confirms_def)


lemma poll_loop_continue:
  "\<not> isBlockFinalized s \<Longrightarrow> attempts s \<le> MAX_ATTEMPTS \<Longrightarrow>
     poll_loop rpc s = poll_loop rpc (loop_body (rpc (attempts s)) s)"
  by (subst poll_loop.simps) simp

lemma poll_loop_stop:
  "isBlockFinalized s \<or> MAX_ATTEMPTS < attempts s \<Longrightarrow> poll_loop rpc s = s"
  by (subst poll_loop.simps) auto

lemma fields_of_progress:
  "isBlockFinalized s = fst (progress s)"
  "sleepTime s = fst (snd (progress s))"
  "attempts s = fst (snd (snd (progress s)))"
  "slept s = snd (snd (snd (progress s)))"
  by (simp_all add: progress_def)

lemma backoff_shift:
  "t # map (\<lambda>j. t + g + j * g) [0..<n] = map (\<lambda>j. t + j * g) [0..<Suc n]" for t g :: nat
proof -
  have "map (\<lambda>j. t + j * g) [0..<Suc n] = (t + 0 * g) # map (\<lambda>j. t + Suc j * g) [0..<n]"
    by (simp only: map_upt_Suc)
  then show ?thesis by (simp add: add.assoc add.commute)
qed

lemma poll_loop_until_confirmed:
  assumes "k - attempts s = d" "\<not> isBlockFinalized s" "attempts s \<le> k" "k \<le> MAX_ATTEMPTS"
    and "\<forall>i. attempts s \<le> i \<and> i < k \<longrightarrow> \<not> confirms (rpc i)" "confirms (rpc k)"
  shows "progress (poll_loop rpc s) =
           (True, sleepTime s + (Suc k - attempts s) * GROW_SLEEP_TIME, Suc k,
            slept s @ map (\<lambda>j. sleepTime s + j * GROW_SLEEP_TIME) [0..<Suc k - attempts s])"
  using assms
proof (induction d arbitrary: s)
  case 0
  then have k: "attempts s = k" by simp
  let ?s' = "loop_body (rpc k) s"
  have p: "progress ?s' = (True, sleepTime s + GROW_SLEEP_TIME, attempts s + 1, slept s @ [sleepTime s])"
    using 0 by (simp add: loop_body_confirmed)
  then have fin: "isBlockFinalized ?s'" by (simp add: fields_of_progress)
  have "poll_loop rpc s = poll_loop rpc ?s'"
    using 0 k by (subst poll_loop.simps) simp
  also have "\<dots> = ?s'" using fin by (subst poll_loop.simps) simp
  finally show ?case using p k by simp
next
  case (Suc d)
  then have lt: "attempts s < k" by simp
  let ?s' = "loop_body (rpc (attempts s)) s"
  have p: "progress ?s' = (False, sleepTime s + GROW_SLEEP_TIME, attempts s + 1, slept s @ [sleepTime s])"
    using Suc.prems lt by (simp add: loop_body_not_confirmed)
  have step: "poll_loop rpc s = poll_loop rpc ?s'"
    using Suc.prems lt by (subst poll_loop.simps) simp
  have "progress (poll_loop rpc ?s') =
           (True, sleepTime ?s' + (Suc k - attempts ?s') * GROW_SLEEP_TIME, Suc k,
            slept ?s' @ map (\<lambda>j. sleepTime ?s' + j * GROW_SLEEP_TIME) [0..<Suc k - attempts ?s'])"
  proof (rule Suc.IH)
    show "k - attempts ?s' = d" using Suc.prems by simp
    show "\<not> isBlockFinalized ?s'" using p by (simp add: fields_of_progress)
    show "attempts ?s' \<le> k" using lt by simp
    show "k \<le> MAX_ATTEMPTS" by fact
    show "\<forall>i. attempts ?s' \<le> i \<and> i < k \<longrightarrow> \<not> confirms (rpc i)" using Suc.prems by simp
    show "confirms (rpc k)" by fact
  qed
  moreover have "sleepTime ?s' = sleepTime s + GROW_SLEEP_TIME" "slept ?s' = slept s @ [sleepTime s]"
    using p by (simp_all add: fields_of_progress)
  moreover have "Suc k - attempts s = Suc (k - attempts s)" "Suc k - attempts ?s' = k - attempts s"
    using lt by simp_all
  ultimately show ?case
    using step backoff_shift [of "sleepTime s" GROW_SLEEP_TIME "k - attempts s", symmetric]
    by (simp del: upt_Suc add: add.assoc)
qed

lemma poll_loop_never_confirmed:
  assumes "Suc MAX_ATTEMPTS - attempts s = d" "\<not> isBlockFinalized s"
    and "\<forall>i. attempts s \<le> i \<and> i \<le> MAX_ATTEMPTS \<longrightarrow> \<not> confirms (rpc i)"
  shows "progress (poll_loop rpc s) =
           (False, sleepTime s + (Suc MAX_ATTEMPTS - attempts s) * GROW_SLEEP_TIME,
            max (attempts s) (Suc MAX_ATTEMPTS),
            slept s @ map (\<lambda>j. sleepTime s + j * GROW_SLEEP_TIME) [0..<Suc MAX_ATTEMPTS - attempts s])"
  using assms
proof (induction d arbitrary: s)
  case 0
  then have "poll_loop rpc s = s" by (subst poll_loop.simps) simp
  then show ?case using 0 by (simp add: progress_def)
next
  case (Suc d)
  then have le: "attempts s \<le> MAX_ATTEMPTS" by simp
  let ?s' = "loop_body (rpc (attempts s)) s"
  have p: "progress ?s' = (False, sleepTime s + GROW_SLEEP_TIME, attempts s + 1, slept s @ [sleepTime s])"
    using Suc.prems le by (simp add: loop_body_not_confirmed)
  have step: "poll_loop rpc s = poll_loop rpc ?s'"
    using Suc.prems le by (subst poll_loop.simps) simp
  have "progress (poll_loop rpc ?s') =
           (False, sleepTime ?s' + (Suc MAX_ATTEMPTS - attempts ?s') * GROW_SLEEP_TIME,
            max (attempts ?s') (Suc MAX_ATTEMPTS),
            slept ?s' @ map (\<lambda>j. sleepTime ?s' + j * GROW_SLEEP_TIME) [0..<Suc MAX_ATTEMPTS - attempts ?s'])"
  proof (rule Suc.IH)
    show "Suc MAX_ATTEMPTS - attempts ?s' = d" using Suc.prems by simp
    show "\<not> isBlockFinalized ?s'" using p by (simp add: fields_of_progress)
    show "\<forall>i. attempts ?s' \<le> i \<and> i \<le> MAX_ATTEMPTS \<longrightarrow> \<not> confirms (rpc i)"
      using Suc.prems by simp
  qed
  moreover have "sleepTime ?s' = sleepTime s + GROW_SLEEP_TIME" "slept ?s' = slept s @ [sleepTime s]"
    using p by (simp_all add: fields_of_progress)
  moreover have "Suc MAX_ATTEMPTS - attempts s = Suc (MAX_ATTEMPTS - attempts s)"
    "Suc MAX_ATTEMPTS - attempts ?s' = MAX_ATTEMPTS - attempts s"
    "max (attempts ?s') (Suc MAX_ATTEMPTS) = max (attempts s) (Suc MAX_ATTEMPTS)"
    using le by simp_all
  ultimately show ?case
    using step backoff_shift [of "sleepTime s" GROW_SLEEP_TIME "MAX_ATTEMPTS - attempts s", symmetric]
    by (simp del: upt_Suc add: add.assoc)
qed

lemma loop_body_as_no_progress:
  "\<not> isBlockFinalized s \<Longrightarrow> progress s' = progress s \<Longrightarrow>
     progress (loop_body (as_no_progress a) s') = progress (loop_body a s)"
  by (cases a)
     (auto simp: loop_body_def catch_branch_def progress_def as_no_progress_def)

lemma poll_loop_as_no_progress:
  "progress s' = progress s \<Longrightarrow>
     progress (poll_loop (\<lambda>i. as_no_progress (rpc i)) s') = progress (poll_loop rpc s)"
proof (induction rpc s arbitrary: s' rule: poll_loop.induct)
  case (1 rpc s)
  have same: "isBlockFinalized s' = isBlockFinalized s" "attempts s' = attempts s"
    using "1.prems" by (simp_all add: fields_of_progress)
  show ?case
  proof (cases "\<not> isBlockFinalized s \<and> attempts s \<le> MAX_ATTEMPTS")
    case True
    have "progress (loop_body (as_no_progress (rpc (attempts s))) s') =
            progress (loop_body (rpc (attempts s)) s)"
      using True "1.prems" by (simp add: loop_body_as_no_progress)
    then have "progress (poll_loop (\<lambda>i. as_no_progress (rpc i))
                 (loop_body (as_no_progress (rpc (attempts s))) s')) =
               progress (poll_loop rpc (loop_body (rpc (attempts s)) s))"
      using True by (rule "1.IH" [rotated])
    moreover have "poll_loop rpc s = poll_loop rpc (loop_body (rpc (attempts s)) s)"
      using True by (simp add: poll_loop_continue)
    moreover have "poll_loop (\<lambda>i. as_no_progress (rpc i)) s' =
        poll_loop (\<lambda>i. as_no_progress (rpc i)) (loop_body (as_no_progress (rpc (attempts s))) s')"
      using True same poll_loop_continue [of s' "\<lambda>i. as_no_progress (rpc i)"] by simp
    ultimately show ?thesis by simp
  next
    case False
    then have "poll_loop rpc s = s" "poll_loop (\<lambda>i. as_no_progress (rpc i)) s' = s'"
      using same by (auto intro: poll_loop_stop)
    then show ?thesis using "1.prems" by simp
  qed
qed

lemma poll_loop_exit:
  "isBlockFinalized (poll_loop rpc s) \<or> MAX_ATTEMPTS < attempts (poll_loop rpc s)"
proof (induction rpc s rule: poll_loop.induct)
  case (1 rpc s)
  show ?case
  proof (cases "\<not> isBlockFinalized s \<and> attempts s \<le> MAX_ATTEMPTS")
    case True
    then show ?thesis using "1.IH" by (simp add: poll_loop_continue)
  next
    case False
    then have "poll_loop rpc s = s" by (auto intro: poll_loop_stop)
    then show ?thesis using False by auto
  qed
qed


lemma progress_initial: "progress initial_poll_state = (False, 100, 0, [])"
  by (simp add: progress_def initial_poll_state_def)

lemma sorted_backoff: "sorted (map (\<lambda>j. t + j * g) [0..<n])" for t g :: nat
  by (simp add: sorted_iff_nth_mono del: upt_Suc)

text \<open>
  Claim C1. Let the node's first confirming answer be the one to the \<open>(k+1)\<close>-th
  attempt, every earlier attempt failing or answering without confirmation, with
  \<open>k < MAX_ATTEMPTS\<close>. Then \<open>getBlockHeight\<close> returns the block number that
  \<open>super.getBlockHeight\<close> gave before the polling began, after \<open>k + 1\<close> attempts,
  and the sleeps before the attempts are \<open>100, 100 + GROW_SLEEP_TIME, 100 + 2 * GROW_SLEEP_TIME, ...\<close>:
  each retry sleeps \<open>GROW_SLEEP_TIME\<close> longer than the attempt before it, so the
  intervals never decrease and grow linearly.
\<close>

theorem getBlockHeight_returns_initial_height:
  assumes "k < MAX_ATTEMPTS" and "\<forall>i<k. \<not> confirms (rpc i)" and "confirms (rpc k)"
  shows "snd (getBlockHeight (Inr blockNumber) rpc) = Inr blockNumber \<and>
         attempts (fst (getBlockHeight (Inr blockNumber) rpc)) = Suc k \<and>
         slept (fst (getBlockHeight (Inr blockNumber) rpc)) =
           map (\<lambda>j. 100 + j * GROW_SLEEP_TIME) [0..<Suc k] \<and>
         sorted (slept (fst (getBlockHeight (Inr blockNumber) rpc)))"
proof -
  have "progress (poll_loop rpc initial_poll_state) =
          (True, 100 + Suc k * GROW_SLEEP_TIME, Suc k,
           map (\<lambda>j. 100 + j * GROW_SLEEP_TIME) [0..<Suc k])"
    using poll_loop_until_confirmed [of k initial_poll_state k rpc] assms progress_initial
    by (simp add: fields_of_progress del: upt_Suc)
  then have "attempts (poll_loop rpc initial_poll_state) = Suc k"
    and "slept (poll_loop rpc initial_poll_state) = map (\<lambda>j. 100 + j * GROW_SLEEP_TIME) [0..<Suc k]"
    by (simp_all add: fields_of_progress del: upt_Suc)
  then show ?thesis
    using assms(1) sorted_backoff [of 100 GROW_SLEEP_TIME "Suc k"]
    by (simp add: getBlockHeight_def Let_def del: upt_Suc)
qed

theorem getBlockHeight_returns_initial_height_witness:
  "snd (getBlockHeight (Inr 18793148) example_rpc) = Inr 18793148 \<and>
   slept (fst (getBlockHeight (Inr 18793148) example_rpc)) = [100, 450, 800]"
proof -
  have "(2::nat) < MAX_ATTEMPTS" by (simp add: MAX_ATTEMPTS_def)
  moreover have "\<forall>i<2. \<not> confirms (example_rpc i)"
    by (simp add: example_rpc_def confirms_def)
  moreover have "confirms (example_rpc 2)"
    by (simp add: example_rpc_def confirms_def)
  ultimately show ?thesis
    using getBlockHeight_returns_initial_height [of 2 example_rpc 18793148]
    by (simp add: GROW_SLEEP_TIME_def upt_rec numeral_2_eq_2)
qed

text \<open>
  Claim C2. When no attempt is ever confirmed, \<open>getBlockHeight\<close> makes
  \<open>MAX_ATTEMPTS + 1\<close> attempts (the first one and \<open>MAX_ATTEMPTS\<close> retries) and then
  throws an \<open>Error\<close> whose message holds the decimal block number; the candidate
  height is not returned.
\<close>

theorem getBlockHeight_never_finalized_throws:
  assumes "\<forall>i\<le>MAX_ATTEMPTS. \<not> confirms (rpc i)"
  shows "snd (getBlockHeight (Inr blockNumber) rpc) =
           Inl (Error (''The block '' @ show_int blockNumber @ '' never ended'')) \<and>
         attempts (fst (getBlockHeight (Inr blockNumber) rpc)) = Suc MAX_ATTEMPTS \<and>
         length (slept (fst (getBlockHeight (Inr blockNumber) rpc))) = Suc MAX_ATTEMPTS"
proof -
  have "progress (poll_loop rpc initial_poll_state) =
          (False, 100 + Suc MAX_ATTEMPTS * GROW_SLEEP_TIME, Suc MAX_ATTEMPTS,
           map (\<lambda>j. 100 + j * GROW_SLEEP_TIME) [0..<Suc MAX_ATTEMPTS])"
    using poll_loop_never_confirmed [of initial_poll_state "Suc MAX_ATTEMPTS" rpc] assms progress_initial
    by (simp add: fields_of_progress del: upt_Suc)
  then have "attempts (poll_loop rpc initial_poll_state) = Suc MAX_ATTEMPTS"
    and "length (slept (poll_loop rpc initial_poll_state)) = Suc MAX_ATTEMPTS"
    by (simp_all add: fields_of_progress del: upt_Suc)
  then show ?thesis
    by (simp add: getBlockHeight_def Let_def)
qed

theorem getBlockHeight_never_finalized_throws_witness:
  "snd (getBlockHeight (Inr 4242) never_final_rpc) = Inl (Error ''The block 4242 never ended'') \<and>
   length (slept (fst (getBlockHeight (Inr 4242) never_final_rpc))) = 11"
proof -
  have "\<forall>i\<le>MAX_ATTEMPTS. \<not> confirms (never_final_rpc i)"
    by (simp add: never_final_rpc_def confirms_def)
  moreover have "show_int 4242 = ''4242''"
    by (simp add: show_int_def show_nat.simps digit_def)
  ultimately show ?thesis
    using getBlockHeight_never_finalized_throws [of never_final_rpc 4242]
    by (simp add: MAX_ATTEMPTS_def)
qed

lemma poll_invariant_initial: "poll_invariant rpc initial_poll_state"
  by (simp add: poll_invariant_def initial_poll_state_def)

lemma loop_body_fields:
  "slept (loop_body a s) = slept s @ [sleepTime s]"
  "sleepTime (loop_body a s) = sleepTime s + GROW_SLEEP_TIME"
  "handled (loop_body a s) = handled s @ thrown a"
  "\<not> isBlockFinalized s \<Longrightarrow> isBlockFinalized (loop_body a s) = confirms a"
  by (cases a; auto simp: loop_body_def catch_branch_def thrown_def confirms_def split: option.splits)+

lemma loop_body_invariant:
  assumes "poll_invariant rpc s" "\<not> isBlockFinalized s" "attempts s \<le> MAX_ATTEMPTS"
  shows "poll_invariant rpc (loop_body (rpc (attempts s)) s)"
proof -
  let ?n = "attempts s" and ?s' = "loop_body (rpc (attempts s)) s"
  have 1: "slept ?s' = map (\<lambda>j. 100 + j * GROW_SLEEP_TIME) [0..<attempts ?s']"
    using assms(1) by (simp add: poll_invariant_def loop_body_fields)
  have 2: "sleepTime ?s' = 100 + attempts ?s' * GROW_SLEEP_TIME"
    using assms(1) by (simp add: poll_invariant_def loop_body_fields)
  have 3: "handled ?s' = concat (map (\<lambda>i. thrown (rpc i)) [0..<attempts ?s'])"
    using assms(1) by (simp add: poll_invariant_def loop_body_fields)
  have last: "0 < ?n \<longrightarrow> \<not> confirms (rpc (?n - 1))"
    using assms(1,2) by (auto simp: poll_invariant_def)
  have 4: "\<forall>i. Suc i < attempts ?s' \<longrightarrow> \<not> confirms (rpc i)"
  proof (intro allI impI)
    fix i assume "Suc i < attempts ?s'"
    then have "Suc i < ?n \<or> (0 < ?n \<and> i = ?n - 1)" by auto
    then show "\<not> confirms (rpc i)"
      using assms(1) last by (auto simp: poll_invariant_def)
  qed
  have 5: "isBlockFinalized ?s' = (0 < attempts ?s' \<and> confirms (rpc (attempts ?s' - 1)))"
    using assms(2) by (simp add: loop_body_fields)
  have 6: "attempts ?s' \<le> Suc MAX_ATTEMPTS" using assms(3) by simp
  show ?thesis unfolding poll_invariant_def by (intro conjI 1 2 3 4 5 6)
qed

lemma poll_loop_invariant:
  "poll_invariant rpc s \<Longrightarrow> poll_invariant rpc (poll_loop rpc s)"
proof (induction rpc s rule: poll_loop.induct)
  case (1 rpc s)
  show ?case
  proof (cases "\<not> isBlockFinalized s \<and> attempts s \<le> MAX_ATTEMPTS")
    case True
    then have "poll_invariant rpc (loop_body (rpc (attempts s)) s)"
      using "1.prems" by (simp add: loop_body_invariant)
    then have "poll_invariant rpc (poll_loop rpc (loop_body (rpc (attempts s)) s))"
      using True by (rule "1.IH" [rotated])
    then show ?thesis using True by (simp add: poll_loop_continue)
  next
    case False
    then have "poll_loop rpc s = s" by (auto intro: poll_loop_stop)
    then show ?thesis using "1.prems" by simp
  qed
qed

lemma final_poll_state:
  "poll_invariant rpc (poll_loop rpc initial_poll_state) \<and>
   (isBlockFinalized (poll_loop rpc initial_poll_state) \<or>
    attempts (poll_loop rpc initial_poll_state) = Suc MAX_ATTEMPTS)"
proof -
  let ?s = "poll_loop rpc initial_poll_state"
  have inv: "poll_invariant rpc ?s"
    by (rule poll_loop_invariant [OF poll_invariant_initial])
  then have "attempts ?s \<le> Suc MAX_ATTEMPTS" by (simp add: poll_invariant_def)
  then show ?thesis using inv poll_loop_exit [of rpc initial_poll_state] by auto
qed


lemma catch_branch_progress:
  "progress (catch_branch e s) = (isBlockFinalized s, sleepTime s + GROW_SLEEP_TIME, attempts s + 1, slept s)"
  by (simp add: catch_branch_def progress_def)

lemma getBlockHeight_state:
  "fst (getBlockHeight (Inr blockNumber) rpc) = poll_loop rpc initial_poll_state"
  by (simp add: getBlockHeight_def Let_def)

lemma getBlockHeight_result:
  "snd (getBlockHeight (Inr blockNumber) rpc) =
     (if attempts (poll_loop rpc initial_poll_state) \<le> MAX_ATTEMPTS then Inr blockNumber
      else Inl (Error (''The block '' @ show_int blockNumber @ '' never ended'')))"
  by (simp add: getBlockHeight_def Let_def)

text \<open>
  Claim C3. Within one call of \<open>getBlockHeight\<close>, a throw of \<open>getBlock\<close> or of the
  \<open>moon_isBlockFinalized\<close> request is a retry like any unconfirmed answer. In the final
  state of the call, \<open>attempts\<close> counts every pass made, whether it threw or answered
  (at least one, at most \<open>MAX_ATTEMPTS + 1\<close>); each pass slept before its request, the
  sleeps being \<open>100 + j * GROW_SLEEP_TIME\<close> for the passes \<open>j\<close> in order; the errors
  handed to \<open>handleError\<close> are exactly those thrown in these passes; no pass before the
  last confirmed, and the block counts as finalized exactly when the last pass
  confirmed. The call ends only with the block confirmed or with all
  \<open>MAX_ATTEMPTS + 1\<close> passes made, and it returns the block number when at most
  \<open>MAX_ATTEMPTS\<close> passes were made and throws the one error of the exhausted budget
  otherwise: a throw inside the loop never leaves the function by itself. Replacing
  every throw by the answer \<open>false\<close> changes neither the result nor the sleeps nor the
  attempt count, one pass of the loop adding one to \<open>attempts\<close> and
  \<open>GROW_SLEEP_TIME\<close> to \<open>sleepTime\<close> in either case.
\<close>

theorem getBlockHeight_rpc_failure_is_retry:
  "snd (getBlockHeight h (\<lambda>i. as_no_progress (rpc i))) = snd (getBlockHeight h rpc) \<and>
   progress (fst (getBlockHeight h (\<lambda>i. as_no_progress (rpc i)))) =
     progress (fst (getBlockHeight h rpc)) \<and>
   progress (loop_body (GetBlockThrows e) s) =
     (isBlockFinalized s, sleepTime s + GROW_SLEEP_TIME, attempts s + 1, slept s @ [sleepTime s]) \<and>
   progress (loop_body (PostThrows e) s) =
     (isBlockFinalized s, sleepTime s + GROW_SLEEP_TIME, attempts s + 1, slept s @ [sleepTime s]) \<and>
   progress (loop_body (Answer (Some False)) s) =
     (False, sleepTime s + GROW_SLEEP_TIME, attempts s + 1, slept s @ [sleepTime s]) \<and>
   (isBlockFinalized (poll_loop rpc initial_poll_state) \<or>
      MAX_ATTEMPTS < attempts (poll_loop rpc initial_poll_state)) \<and>
   (snd (getBlockHeight (Inr blockNumber) rpc) = Inr blockNumber \<or>
    snd (getBlockHeight (Inr blockNumber) rpc) =
      Inl (Error (''The block '' @ show_int blockNumber @ '' never ended''))) \<and>
   1 \<le> attempts (fst (getBlockHeight (Inr blockNumber) rpc)) \<and>
   attempts (fst (getBlockHeight (Inr blockNumber) rpc)) \<le> Suc MAX_ATTEMPTS \<and>
   slept (fst (getBlockHeight (Inr blockNumber) rpc)) =
     map (\<lambda>j. 100 + j * GROW_SLEEP_TIME) [0..<attempts (fst (getBlockHeight (Inr blockNumber) rpc))] \<and>
   sleepTime (fst (getBlockHeight (Inr blockNumber) rpc)) =
     100 + attempts (fst (getBlockHeight (Inr blockNumber) rpc)) * GROW_SLEEP_TIME \<and>
   handled (fst (getBlockHeight (Inr blockNumber) rpc)) =
     concat (map (\<lambda>i. thrown (rpc i)) [0..<attempts (fst (getBlockHeight (Inr blockNumber) rpc))]) \<and>
   (\<forall>i. Suc i < attempts (fst (getBlockHeight (Inr blockNumber) rpc)) \<longrightarrow> \<not> confirms (rpc i)) \<and>
   isBlockFinalized (fst (getBlockHeight (Inr blockNumber) rpc)) =
     confirms (rpc (attempts (fst (getBlockHeight (Inr blockNumber) rpc)) - 1)) \<and>
   (isBlockFinalized (fst (getBlockHeight (Inr blockNumber) rpc)) \<or>
    attempts (fst (getBlockHeight (Inr blockNumber) rpc)) = Suc MAX_ATTEMPTS) \<and>
   snd (getBlockHeight (Inr blockNumber) rpc) =
     (if attempts (fst (getBlockHeight (Inr blockNumber) rpc)) \<le> MAX_ATTEMPTS
      then Inr blockNumber
      else Inl (Error (''The block '' @ show_int blockNumber @ '' never ended'')))"
proof -
  let ?S = "poll_loop rpc initial_poll_state"
  have loops: "progress (poll_loop (\<lambda>i. as_no_progress (rpc i)) initial_poll_state) =
      progress (poll_loop rpc initial_poll_state)"
    by (rule poll_loop_as_no_progress) simp
  then have att: "attempts (poll_loop (\<lambda>i. as_no_progress (rpc i)) initial_poll_state) =
      attempts (poll_loop rpc initial_poll_state)"
    by (simp add: fields_of_progress)
  have 1: "snd (getBlockHeight h (\<lambda>i. as_no_progress (rpc i))) = snd (getBlockHeight h rpc)"
    using att by (cases h) (simp_all add: getBlockHeight_def Let_def)
  have 2: "progress (fst (getBlockHeight h (\<lambda>i. as_no_progress (rpc i)))) =
     progress (fst (getBlockHeight h rpc))"
    using att loops by (cases h) (simp_all add: getBlockHeight_def Let_def)
  have 3: "progress (loop_body (GetBlockThrows e) s) =
     (isBlockFinalized s, sleepTime s + GROW_SLEEP_TIME, attempts s + 1, slept s @ [sleepTime s])"
    by (simp add: loop_body_def catch_branch_progress)
  have 4: "progress (loop_body (PostThrows e) s) =
     (isBlockFinalized s, sleepTime s + GROW_SLEEP_TIME, attempts s + 1, slept s @ [sleepTime s])"
    by (simp add: loop_body_def catch_branch_progress)
  have 5: "progress (loop_body (Answer (Some False)) s) =
     (False, sleepTime s + GROW_SLEEP_TIME, attempts s + 1, slept s @ [sleepTime s])"
    by (simp add: loop_body_def progress_def)
  have 6: "isBlockFinalized ?S \<or> MAX_ATTEMPTS < attempts ?S"
    by (rule poll_loop_exit)
  have 7: "snd (getBlockHeight (Inr blockNumber) rpc) = Inr blockNumber \<or>
    snd (getBlockHeight (Inr blockNumber) rpc) =
      Inl (Error (''The block '' @ show_int blockNumber @ '' never ended''))"
    by (simp add: getBlockHeight_def Let_def)
  have inv: "poll_invariant rpc ?S" and ex: "isBlockFinalized ?S \<or> attempts ?S = Suc MAX_ATTEMPTS"
    using final_poll_state [of rpc] by simp_all
  have fin: "isBlockFinalized ?S = (0 < attempts ?S \<and> confirms (rpc (attempts ?S - 1)))"
    using inv by (simp add: poll_invariant_def)
  have 8: "1 \<le> attempts ?S" using ex fin by auto
  have 9: "attempts ?S \<le> Suc MAX_ATTEMPTS" using inv by (simp add: poll_invariant_def)
  have 10: "slept ?S = map (\<lambda>j. 100 + j * GROW_SLEEP_TIME) [0..<attempts ?S]"
    using inv by (simp add: poll_invariant_def)
  have 11: "sleepTime ?S = 100 + attempts ?S * GROW_SLEEP_TIME"
    using inv by (simp add: poll_invariant_def)
  have 12: "handled ?S = concat (map (\<lambda>i. thrown (rpc i)) [0..<attempts ?S])"
    using inv by (simp add: poll_invariant_def)
  have 13: "\<forall>i. Suc i < attempts ?S \<longrightarrow> \<not> confirms (rpc i)"
    using inv by (simp add: poll_invariant_def)
  have 14: "isBlockFinalized ?S = confirms (rpc (attempts ?S - 1))"
    using fin 8 by auto
  have st: "fst (getBlockHeight (Inr blockNumber) rpc) = ?S"
    by (rule getBlockHeight_state)
  note final = 8 9 10 11 12 13 14 ex getBlockHeight_result [of blockNumber rpc]
  show ?thesis
    by (intro conjI 1 2 3 4 5 6 7 final [folded st])
qed

theorem getBlockHeight_rpc_failure_is_retry_witness:
  "attempts (fst (getBlockHeight (Inr 18793148) example_rpc)) = 3 \<and>
   handled (fst (getBlockHeight (Inr 18793148) example_rpc)) = [Error ''timeout''] \<and>
   slept (fst (getBlockHeight (Inr 18793148) example_rpc)) = [100, 450, 800] \<and>
   snd (getBlockHeight (Inr 18793148) example_rpc) = Inr 18793148"
proof -
  let ?S = "fst (getBlockHeight (Inr 18793148) example_rpc)"
  note t = getBlockHeight_rpc_failure_is_retry [of "Inr 18793148" example_rpc "Error ''timeout''" initial_poll_state 18793148]
  have c: "confirms (example_rpc 2)" "\<not> confirms (example_rpc 0)" "\<not> confirms (example_rpc 1)"
    by (simp_all add: example_rpc_def confirms_def)
  have none: "\<forall>i. Suc i < attempts ?S \<longrightarrow> \<not> confirms (example_rpc i)" using t by blast
  have le: "attempts ?S \<le> 3"
  proof (rule ccontr)
    assume "\<not> attempts ?S \<le> 3"
    then have "Suc 2 < attempts ?S" by simp
    then show False using none c(1) by blast
  qed
  have ge: "1 \<le> attempts ?S" using t by blast
  have "isBlockFinalized ?S \<or> attempts ?S = Suc MAX_ATTEMPTS" using t by blast
  then have "isBlockFinalized ?S" using le by (auto simp: MAX_ATTEMPTS_def)
  moreover have "isBlockFinalized ?S = confirms (example_rpc (attempts ?S - 1))" using t by blast
  ultimately have conf: "confirms (example_rpc (attempts ?S - 1))" by simp
  have "attempts ?S = 1 \<or> attempts ?S = 2 \<or> attempts ?S = 3" using le ge by auto
  then have att: "attempts ?S = 3" using conf c(2,3) by auto
  have "handled ?S = concat (map (\<lambda>i. thrown (example_rpc i)) [0..<attempts ?S])" using t by blast
  then have h: "handled ?S = [Error ''timeout'']"
    unfolding att by (simp add: upt_rec example_rpc_def thrown_def)
  have "slept ?S = map (\<lambda>j. 100 + j * GROW_SLEEP_TIME) [0..<attempts ?S]" using t by blast
  then have sl: "slept ?S = [100, 450, 800]"
    unfolding att by (simp add: upt_rec GROW_SLEEP_TIME_def)
  have "snd (getBlockHeight (Inr 18793148) example_rpc) =
     (if attempts ?S \<le> MAX_ATTEMPTS then Inr 18793148
      else Inl (Error (''The block '' @ show_int 18793148 @ '' never ended'')))" using t by blast
  then have r: "snd (getBlockHeight (Inr 18793148) example_rpc) = Inr 18793148"
    unfolding att by (simp add: MAX_ATTEMPTS_def)
  show ?thesis using att h sl r by blast
qed

section \<open>Properties of divideIntoBatches\<close>

lemma foldl_Set_add_distinct:
  "distinct (acc @ xs) \<Longrightarrow> foldl Set_add acc xs = acc @ xs"
  by (induction xs arbitrary: acc) (auto simp: Set_add_def)

lemma new_Set_distinct: "distinct xs \<Longrightarrow> new_Set xs = xs"
  using foldl_Set_add_distinct [of "[]" xs] by (simp add: new_Set_def)

lemma forEach_invariant:
  assumes "distinct (concat bs @ cur @ xs)" "length cur < b" "\<forall>c\<in>set bs. length c = b"
  shows "concat (fst (foldl (forEach_body b) (bs, cur) xs)) @ snd (foldl (forEach_body b) (bs, cur) xs)
           = concat bs @ cur @ xs \<and>
         (\<forall>c\<in>set (fst (foldl (forEach_body b) (bs, cur) xs)). length c = b) \<and>
         length (snd (foldl (forEach_body b) (bs, cur) xs)) < b"
  using assms
proof (induction xs arbitrary: bs cur)
  case Nil
  then show ?case by simp
next
  case (Cons x xs)
  show ?case
  proof (cases "length (cur @ [x]) = b")
    case True
    have d: "distinct (cur @ [x])" using Cons.prems(1) by auto
    have step: "forEach_body b (bs, cur) x = (bs @ [cur @ [x]], [])"
      using True d by (simp add: forEach_body_def Let_def new_Set_distinct)
    have 1: "distinct (concat (bs @ [cur @ [x]]) @ [] @ xs)" using Cons.prems(1) by simp
    have 2: "length ([]::'a list) < b" using True by auto
    have 3: "\<forall>c\<in>set (bs @ [cur @ [x]]). length c = b" using True Cons.prems(3) by auto
    note ih = Cons.IH [OF 1 2 3]
    have unfold: "foldl (forEach_body b) (bs, cur) (x # xs) =
        foldl (forEach_body b) (bs @ [cur @ [x]], []) xs"
      by (simp add: step)
    show ?thesis
      unfolding unfold using ih by simp
  next
    case False
    have step: "forEach_body b (bs, cur) x = (bs, cur @ [x])"
      using False by (simp add: forEach_body_def Let_def)
    have 1: "distinct (concat bs @ (cur @ [x]) @ xs)" using Cons.prems(1) by simp
    have 2: "length (cur @ [x]) < b" using False Cons.prems(2) by simp
    note ih = Cons.IH [OF 1 2 Cons.prems(3)]
    have unfold: "foldl (forEach_body b) (bs, cur) (x # xs) =
        foldl (forEach_body b) (bs, cur @ [x]) xs"
      by (simp add: step)
    show ?thesis
      unfolding unfold using ih by simp
  qed
qed

lemma divideIntoBatches_shape:
  assumes "distinct S" "0 < b"
  shows "\<exists>bs cur. divideIntoBatches S b = bs @ (if cur = [] then [] else [cur]) \<and>
           concat bs @ cur = S \<and> (\<forall>c\<in>set bs. length c = b) \<and> length cur < b"
proof -
  let ?st = "foldl (forEach_body b) ([], []) S"
  have inv: "concat (fst ?st) @ snd ?st = S \<and> (\<forall>c\<in>set (fst ?st). length c = b) \<and> length (snd ?st) < b"
    using forEach_invariant [of "[]" "[]" S b] assms by simp
  then have "distinct (snd ?st)" using assms(1) by (metis distinct_append)
  then have "divideIntoBatches S b = fst ?st @ (if snd ?st = [] then [] else [snd ?st])"
    by (simp add: divideIntoBatches_def Let_def new_Set_distinct)
  then show ?thesis using inv by blast
qed

lemma length_concat_uniform:
  "\<forall>c\<in>set bs. length c = b \<Longrightarrow> length (concat bs) = length bs * b"
  by (induction bs) auto

lemma distinct_concat_disjoint:
  "distinct (concat R) \<Longrightarrow> i < j \<Longrightarrow> j < length R \<Longrightarrow> set (R ! i) \<inter> set (R ! j) = {}"
proof (induction R arbitrary: i j)
  case Nil
  then show ?case by simp
next
  case (Cons r R)
  show ?case
  proof (cases i)
    case 0
    then obtain j' where j: "j = Suc j'" "j' < length R" using Cons.prems by (cases j) auto
    then have mem: "R ! j' \<in> set R" by simp
    have "set r \<inter> \<Union> (set ` set R) = {}" using Cons.prems(1) by simp
    then have "set r \<inter> set (R ! j') = {}" using mem by blast
    then show ?thesis using 0 j by simp
  next
    case (Suc i')
    then obtain j' where j: "j = Suc j'" "j' < length R" "i' < j'" using Cons.prems by (cases j) auto
    then show ?thesis using Suc Cons.IH [of i' j'] Cons.prems(1) by simp
  qed
qed

lemma ceil_div_nat:
  fixes n b q r :: nat
  assumes "0 < b" "n = q * b + r" "r < b"
  shows "(n + b - 1) div b = q + (if r = 0 then 0 else 1)"
proof (cases "r = 0")
  case True
  have "n + b - 1 = (b - 1) + q * b" using assms True by (cases b) simp_all
  moreover have "((b - 1) + q * b) div b = q + (b - 1) div b"
    using assms(1) by (intro div_mult_self1) simp
  moreover have "(b - 1) div b = 0" using assms(1) by simp
  ultimately show ?thesis using True by simp
next
  case False
  have "n + b - 1 = (r - 1) + (q + 1) * b" using assms False by (cases r) simp_all
  moreover have "((r - 1) + (q + 1) * b) div b = (q + 1) + (r - 1) div b"
    using assms(1) by (intro div_mult_self1) simp
  moreover have "(r - 1) div b = 0" using assms(3) by simp
  ultimately show ?thesis using False by simp
qed

text \<open>
  Claim C4. For a set \<open>S\<close> of distinct items (the list of a \<open>Set\<close> in iteration
  order) and a batch size \<open>b > 0\<close> (a whole number), \<open>divideIntoBatches\<close> returns
  \<open>\<lceil>|S| / b\<rceil>\<close> batches; every batch but the last has \<open>b\<close> elements, the last
  has \<open>|S| mod b\<close> elements when that is not zero and \<open>b\<close> otherwise; the batches are
  pairwise disjoint, none holds an item twice, their union is \<open>S\<close> (in fact their
  concatenation is \<open>S\<close> in its order); and 25 items with batch size 10 give batches of
  sizes 10, 10 and 5.
\<close>

theorem divideIntoBatches_partitions:
  assumes "distinct S" and "0 < b"
  shows "length (divideIntoBatches S b) = (length S + b - 1) div b \<and>
         (\<forall>i. Suc i < length (divideIntoBatches S b) \<longrightarrow> length (divideIntoBatches S b ! i) = b) \<and>
         (divideIntoBatches S b \<noteq> [] \<longrightarrow>
            length (last (divideIntoBatches S b)) =
              (if length S mod b = 0 then b else length S mod b)) \<and>
         (\<forall>i j. i < j \<and> j < length (divideIntoBatches S b) \<longrightarrow>
            set (divideIntoBatches S b ! i) \<inter> set (divideIntoBatches S b ! j) = {}) \<and>
         (\<forall>c\<in>set (divideIntoBatches S b). distinct c) \<and>
         \<Union> (set ` set (divideIntoBatches S b)) = set S \<and>
         concat (divideIntoBatches S b) = S \<and>
         (length S = 25 \<and> b = 10 \<longrightarrow> map length (divideIntoBatches S b) = [10, 10, 5])"
proof -
  obtain bs cur where R: "divideIntoBatches S b = bs @ (if cur = [] then [] else [cur])"
    and cat: "concat bs @ cur = S" and full: "\<forall>c\<in>set bs. length c = b" and part: "length cur < b"
    using divideIntoBatches_shape [OF assms] by blast
  let ?R = "divideIntoBatches S b"
  have catR: "concat ?R = S" using R cat by auto
  have "length (concat bs @ cur) = length bs * b + length cur"
    by (simp add: length_concat_uniform [OF full])
  then have len: "length S = length bs * b + length cur"
    using cat by simp
  have q: "length S div b = length bs" and r: "length S mod b = length cur"
    using len part by simp_all
  have count: "length ?R = (length S + b - 1) div b"
    using ceil_div_nat [OF assms(2) len part] R by simp
  have inner: "\<forall>i. Suc i < length ?R \<longrightarrow> length (?R ! i) = b"
  proof (intro allI impI)
    fix i assume "Suc i < length ?R"
    then have "i < length bs" using R by (simp split: if_splits)
    then show "length (?R ! i) = b" using R full by (simp add: nth_append)
  qed
  have lastR: "?R \<noteq> [] \<longrightarrow> length (last ?R) = (if length S mod b = 0 then b else length S mod b)"
  proof (cases "cur = []")
    case True
    then have "?R = bs" using R by simp
    then show ?thesis using True r full by (auto simp: last_in_set)
  next
    case False
    then show ?thesis using R r by simp
  qed
  have dis: "\<forall>i j. i < j \<and> j < length ?R \<longrightarrow> set (?R ! i) \<inter> set (?R ! j) = {}"
    using distinct_concat_disjoint [of ?R] catR assms(1) by simp
  have "distinct (concat ?R)" using catR assms(1) by simp
  then have each: "\<forall>c\<in>set ?R. distinct c"
    by (simp add: distinct_concat_iff)
  have "\<Union> (set ` set ?R) = set (concat ?R)" by simp
  then have un: "\<Union> (set ` set ?R) = set S"
    using catR by simp
  have ex: "length S = 25 \<and> b = 10 \<longrightarrow> map length ?R = [10, 10, 5]"
  proof
    assume a: "length S = 25 \<and> b = 10"
    then have "length bs = 2" "length cur = 5" using q r by simp_all
    then obtain b0 b1 where "bs = [b0, b1]"
      by (auto simp: length_Suc_conv numeral_2_eq_2)
    then show "map length ?R = [10, 10, 5]"
      using R full a \<open>length cur = 5\<close> by auto
  qed
  show ?thesis by (intro conjI count inner lastR dis each un catR ex)
qed


theorem divideIntoBatches_partitions_witness:
  "map length (divideIntoBatches [0..<25::nat] 10) = [10, 10, 5] \<and>
   divideIntoBatches [0..<7::nat] 3 = [[0, 1, 2], [3, 4, 5], [6]]"
proof -
  have "distinct [0..<25::nat]" "(0::nat) < 10" by simp_all
  then have "map length (divideIntoBatches [0..<25::nat] 10) = [10, 10, 5]"
    using divideIntoBatches_partitions [of "[0..<25::nat]" 10] by simp
  moreover have "divideIntoBatches [0..<7::nat] 3 = [[0, 1, 2], [3, 4, 5], [6]]"
    by (simp add: divideIntoBatches_def forEach_body_def new_Set_def Set_add_def upt_rec Let_def)
  ultimately show ?thesis by simp
qed

section \<open>Properties of aptosLogMessagePublishedMapper\<close>

lemma concat_replicate_single: "concat (replicate n [c]) = replicate n c"
  by (induction n) simp_all

lemma padStart_zero:
  "padStart s n ''0'' = replicate (n - length s) (CHR ''0'') @ s"
  by (simp add: padStart_def concat_replicate_single)

lemma split_from_head:
  assumes "sep \<noteq> []"
  shows "\<exists>seg rest. split_from sep cur s = (cur @ seg) # rest \<and> prefix seg s \<and>
           (seg = s \<or> prefix (seg @ sep) s) \<and> (\<forall>k<length seg. \<not> prefix sep (drop k s))"
  using assms
proof (induction sep cur s rule: split_from.induct)
  case (1 sep cur)
  then show ?case by simp
next
  case (2 sep cur c cs)
  show ?case
  proof (cases "prefix sep (c # cs)")
    case True
    then have "split_from sep cur (c # cs) = (cur @ []) # split_from sep [] (drop (length sep) (c # cs))"
      using "2.prems" by simp
    moreover have "prefix ([] @ sep) (c # cs)" using True by simp
    ultimately show ?thesis by (metis list.size(3) not_less_zero prefix_bot.bot_least)
  next
    case False
    then obtain seg rest where ih: "split_from sep (cur @ [c]) cs = ((cur @ [c]) @ seg) # rest"
      "prefix seg cs" "seg = cs \<or> prefix (seg @ sep) cs" "\<forall>k<length seg. \<not> prefix sep (drop k cs)"
      using "2.IH"(2) "2.prems" by blast
    have a: "split_from sep cur (c # cs) = (cur @ (c # seg)) # rest"
      using False ih(1) by simp
    have b: "prefix (c # seg) (c # cs)" using ih(2) by simp
    have c: "c # seg = c # cs \<or> prefix ((c # seg) @ sep) (c # cs)" using ih(3) by auto
    have d: "\<forall>k<length (c # seg). \<not> prefix sep (drop k (c # cs))"
    proof (intro allI impI)
      fix k assume "k < length (c # seg)"
      then show "\<not> prefix sep (drop k (c # cs))"
        using False ih(4) by (cases k) auto
    qed
    show ?thesis using a b c d by blast
  qed
qed

lemma first_segment:
  "\<exists>seg. at0 (split s ''::'') = Some seg \<and> prefix seg s \<and>
     (seg = s \<or> prefix (seg @ ''::'') s) \<and> (\<forall>k<length seg. \<not> prefix ''::'' (drop k s))"
proof -
  obtain seg rest where "split_from ''::'' [] s = ([] @ seg) # rest" "prefix seg s"
    "seg = s \<or> prefix (seg @ ''::'') s" "\<forall>k<length seg. \<not> prefix ''::'' (drop k s)"
    using split_from_head [of "''::''" "[]" s] by auto
  then show ?thesis by (auto simp: at0_def split_def)
qed

lemma find_wormhole_event:
  assumes "e \<in> set es" "P e"
  shows "\<exists>w. find P es = Some w \<and> w \<in> set es \<and> P w"
  using assms by (induction es) auto

lemma mapper_no_event:
  "find (\<lambda>tx. includes_str (ev_type tx) REDEEM_EVENT_TAIL) (tx_events transaction) = None \<Longrightarrow>
     aptosLogMessagePublishedMapper Number transaction =
       Inl (TypeError ''Cannot read properties of undefined (reading 'data')'')"
  by (simp add: aptosLogMessagePublishedMapper_def)

text \<open>
  Claim C5. The claim is that a transaction without an event whose type includes
  \<open>"::state::WormholeMessage"\<close> makes the mapper return \<open>undefined\<close> without
  throwing. The mapper reads \<open>wormholeEvent.data\<close> without looking at what \<open>find\<close>
  returned: on the transaction \<open>transfer_tx\<close>, whose only event is a coin withdrawal,
  \<open>find\<close> returns \<open>undefined\<close> and the mapper throws a \<open>TypeError\<close>.
\<close>

theorem aptos_mapper_throws_without_wormhole_event:
  "find (\<lambda>tx. includes_str (ev_type tx) REDEEM_EVENT_TAIL) (tx_events transfer_tx) = None \<and>
   aptosLogMessagePublishedMapper Number transfer_tx =
     Inl (TypeError ''Cannot read properties of undefined (reading 'data')'')"
  by (simp add: aptosLogMessagePublishedMapper_def transfer_tx_def REDEEM_EVENT_TAIL_def)

text \<open>
  Claim C9. For a transaction holding an event whose type includes
  \<open>"::state::WormholeMessage"\<close>, the mapper returns one event, built from the first such
  event \<open>w\<close>: its name is \<open>log-message-published\<close>, its chain id 22, its
  \<open>txHash\<close> the hash of the transaction, its address the first segment of the payload's
  function (the part before the first \<open>"::"\<close>, or the whole string when there is none),
  and \<open>attributes.sender\<close> the sender of \<open>w\<close> with zeros put in front up to 64
  characters.
\<close>

theorem aptos_mapper_event_fields:
  assumes "e \<in> set (tx_events transaction)" and "includes_str (ev_type e) REDEEM_EVENT_TAIL"
  shows "\<exists>w ev seg.
           find (\<lambda>tx. includes_str (ev_type tx) REDEEM_EVENT_TAIL) (tx_events transaction) = Some w \<and>
           aptosLogMessagePublishedMapper Number transaction = Inr (Some ev) \<and>
           name ev = ''log-message-published'' \<and>
           chainId ev = 22 \<and>
           txHash ev = tx_hash transaction \<and>
           address ev = Some seg \<and>
           prefix seg (tx_payload_function transaction) \<and>
           (seg = tx_payload_function transaction \<or>
            prefix (seg @ ''::'') (tx_payload_function transaction)) \<and>
           (\<forall>k<length seg. \<not> prefix ''::'' (drop k (tx_payload_function transaction))) \<and>
           sender (attributes ev) =
             replicate (64 - length (data_sender (ev_data w))) (CHR ''0'') @ data_sender (ev_data w) \<and>
           (length (data_sender (ev_data w)) \<le> 64 \<longrightarrow> length (sender (attributes ev)) = 64)"
proof -
  obtain w where w: "find (\<lambda>tx. includes_str (ev_type tx) REDEEM_EVENT_TAIL) (tx_events transaction) = Some w"
    using find_wormhole_event [OF assms(1), of "\<lambda>tx. includes_str (ev_type tx) REDEEM_EVENT_TAIL"] assms(2)
    by blast
  obtain seg where seg: "at0 (split (tx_payload_function transaction) ''::'') = Some seg"
    "prefix seg (tx_payload_function transaction)"
    "seg = tx_payload_function transaction \<or> prefix (seg @ ''::'') (tx_payload_function transaction)"
    "\<forall>k<length seg. \<not> prefix ''::'' (drop k (tx_payload_function transaction))"
    using first_segment [of "tx_payload_function transaction"] by blast
  let ?ev = "\<lparr>name = ''log-message-published'',
                 address = Some seg,
                 chainId = CHAIN_ID_APTOS,
                 txHash = tx_hash transaction,
                 blockHeight = tx_blockHeight transaction,
                 blockTime = data_timestamp (ev_data w),
                 attributes =
                   \<lparr>sender = padStart (data_sender (ev_data w)) 64 ''0'',
                    sequence = Number (data_sequence (ev_data w)),
                    payload = data_payload (ev_data w),
                    nonce = Number (data_nonce (ev_data w)),
                    consistencyLevel = data_consistencyLevel (ev_data w)\<rparr>\<rparr>"
  have run: "aptosLogMessagePublishedMapper Number transaction = Inr (Some ?ev)"
    using w seg(1) by (simp add: aptosLogMessagePublishedMapper_def Let_def)
  have pad: "sender (attributes ?ev) =
      replicate (64 - length (data_sender (ev_data w))) (CHR ''0'') @ data_sender (ev_data w)"
    by (simp add: padStart_zero)
  have len: "length (data_sender (ev_data w)) \<le> 64 \<longrightarrow> length (sender (attributes ?ev)) = 64"
    by (simp add: padStart_zero)
  have "name ?ev = ''log-message-published''" "chainId ?ev = 22" "txHash ?ev = tx_hash transaction"
    "address ?ev = Some seg"
    by (simp_all add: CHAIN_ID_APTOS_def)
  then show ?thesis using w run pad len seg(2,3,4) by blast
qed


theorem aptos_mapper_event_fields_witness:
  "includes_str (ev_type (tx_events publish_tx ! 1)) REDEEM_EVENT_TAIL \<and>
   (\<exists>ev. aptosLogMessagePublishedMapper (\<lambda>s. s) publish_tx = Inr (Some ev) \<and>
     name ev = ''log-message-published'' \<and> chainId ev = 22 \<and> txHash ev = ''0x99f9cd1e'' \<and>
     address ev = Some ''0x5bc1'' \<and>
     sender (attributes ev) = ''0000000000000000000000000000000000000000000000000000000000000001'')"
proof -
  let ?e = "\<lparr>ev_type = ''0x5bc1::state::WormholeMessage'', ev_data = example_data\<rparr>"
  have mem: "?e \<in> set (tx_events publish_tx)"
    by (simp add: publish_tx_def)
  have inc: "includes_str (ev_type ?e) REDEEM_EVENT_TAIL"
    by (simp add: REDEEM_EVENT_TAIL_def)
  have nth: "tx_events publish_tx ! 1 = ?e"
    by (simp add: publish_tx_def)
  obtain w ev where ev: "find (\<lambda>tx. includes_str (ev_type tx) REDEEM_EVENT_TAIL) (tx_events publish_tx) = Some w"
    "aptosLogMessagePublishedMapper (\<lambda>s. s) publish_tx = Inr (Some ev)"
    "name ev = ''log-message-published''" "chainId ev = 22" "txHash ev = tx_hash publish_tx"
    "sender (attributes ev) =
       replicate (64 - length (data_sender (ev_data w))) (CHR ''0'') @ data_sender (ev_data w)"
    using aptos_mapper_event_fields [OF mem inc, of "\<lambda>s. s"] by blast
  have "find (\<lambda>tx. includes_str (ev_type tx) REDEEM_EVENT_TAIL) (tx_events publish_tx) = Some ?e"
    by (simp add: publish_tx_def REDEEM_EVENT_TAIL_def)
  then have w: "w = ?e" using ev(1) by simp
  have pad: "replicate (64 - length ''1'') (CHR ''0'') @ ''1'' =
      ''0000000000000000000000000000000000000000000000000000000000000001''"
    by code_simp
  have "data_sender (ev_data w) = ''1''" unfolding w by (simp add: example_data_def)
  then have snd: "sender (attributes ev) =
      ''0000000000000000000000000000000000000000000000000000000000000001''"
    using ev(6) pad by (simp only:)
  have seg: "at0 (split (tx_payload_function publish_tx) ''::'') = Some ''0x5bc1''"
    by (simp add: publish_tx_def split_def at0_def)
  have "aptosLogMessagePublishedMapper (\<lambda>s. s) publish_tx = Inr (Some ev) \<longrightarrow>
      address ev = Some ''0x5bc1''"
    unfolding aptosLogMessagePublishedMapper_def Let_def ev(1) seg by auto
  then have adr: "address ev = Some ''0x5bc1''" using ev(2) by simp
  have hash: "txHash ev = ''0x99f9cd1e''" using ev(5) by (simp add: publish_tx_def)
  have "includes_str (ev_type (tx_events publish_tx ! 1)) REDEEM_EVENT_TAIL"
    unfolding nth by (rule inc)
  then show ?thesis
    using ev(2,3,4) hash adr snd by blast
qed

section \<open>Properties of StaticJobRepository\<close>

lemma handlers_cases:
  "handlers repo a = Some f \<Longrightarrow>
     f = handleEvmLogs repo \<or> f = handleEvmTransactions repo \<or> f = handleSolanaTx repo \<or>
     f = handleSuiTx repo \<or> f = handleAptosTx repo"
  by (auto simp: handlers_def split: if_splits)

lemma targets_dummy: "targets ''dummy'' = Some dummyTarget"
  by (simp add: targets_def)

lemma factory_dry:
  assumes "dryRun repo" "handlers repo a = Some f" "f cfg t mp = Inr h"
  shows "handler_target h = dummyTarget"
  using handlers_cases [OF assms(2)] assms(1,3)
  by (auto simp: handleEvmLogs_def handleEvmTransactions_def handleSolanaTx_def handleSuiTx_def
        handleAptosTx_def new_handler_def getTarget_def get_target_unchecked_def targets_dummy)

lemma wire_handler_dry:
  assumes "dryRun repo" "wire_handler repo jobDef d = Inr h"
  shows "handler_target h = dummyTarget"
  using assms factory_dry [OF assms(1)]
  by (auto simp: wire_handler_def split: option.splits)

lemma getHandlers_loop_dry:
  assumes "dryRun repo"
  shows "getHandlers_loop repo jobDef ds acc = Inr hs \<Longrightarrow>
         \<forall>h\<in>set acc. handler_target h = dummyTarget \<Longrightarrow>
         \<forall>h\<in>set hs. handler_target h = dummyTarget"
proof (induction ds arbitrary: acc)
  case Nil
  then show ?case by simp
next
  case (Cons d ds)
  show ?case
  proof (cases "wire_handler repo jobDef d")
    case (Inl e)
    then show ?thesis using Cons.prems(1) by simp
  next
    case (Inr h)
    then have rest: "getHandlers_loop repo jobDef ds (acc @ [h]) = Inr hs"
      using Cons.prems(1) by simp
    have "handler_target h = dummyTarget" using wire_handler_dry [OF assms Inr] .
    then have "\<forall>x\<in>set (acc @ [h]). handler_target x = dummyTarget" using Cons.prems(2) by simp
    then show ?thesis by (rule Cons.IH [OF rest])
  qed
qed


lemma factory_dry_of_live:
  assumes "handlers (new_StaticJobRepository env False) a = Some g" "g cfg t mp = Inr h"
  shows "\<exists>f. handlers (new_StaticJobRepository env True) a = Some f \<and>
             f cfg t' mp = Inr (h\<lparr>handler_target := dummyTarget\<rparr>)"
proof -
  let ?live = "new_StaticJobRepository env False" and ?dry = "new_StaticJobRepository env True"
  have dry: "get_target_unchecked ?dry t' = Inr dummyTarget" "getTarget ?dry t' = Inr dummyTarget"
    by (simp_all add: get_target_unchecked_def getTarget_def new_StaticJobRepository_def targets_dummy)
  consider "a = ''HandleEvmLogs''" | "a = ''HandleEvmTransactions''" | "a = ''HandleSolanaTransactions''"
    | "a = ''HandleSuiTransactions''" | "a = ''HandleAptosTransactions''"
    using assms(1) by (auto simp: handlers_def split: if_splits)
  then show ?thesis
  proof cases
    case 1
    then have "g = handleEvmLogs ?live" using assms(1) by (simp add: handlers_def)
    then have "handlers ?dry a = Some (handleEvmLogs ?dry)"
      and "handleEvmLogs ?dry cfg t' mp = Inr (h\<lparr>handler_target := dummyTarget\<rparr>)"
      using 1 assms(2) dry
      by (auto simp: handlers_def handleEvmLogs_def new_handler_def split: sum.splits)
    then show ?thesis by blast
  next
    case 2
    then have "g = handleEvmTransactions ?live" using assms(1) by (simp add: handlers_def)
    then have "handlers ?dry a = Some (handleEvmTransactions ?dry)"
      and "handleEvmTransactions ?dry cfg t' mp = Inr (h\<lparr>handler_target := dummyTarget\<rparr>)"
      using 2 assms(2) dry
      by (auto simp: handlers_def handleEvmTransactions_def new_handler_def split: sum.splits)
    then show ?thesis by blast
  next
    case 3
    then have "g = handleSolanaTx ?live" using assms(1) by (simp add: handlers_def)
    then have "handlers ?dry a = Some (handleSolanaTx ?dry)"
      and "handleSolanaTx ?dry cfg t' mp = Inr (h\<lparr>handler_target := dummyTarget\<rparr>)"
      using 3 assms(2) dry
      by (auto simp: handlers_def handleSolanaTx_def new_handler_def split: sum.splits)
    then show ?thesis by blast
  next
    case 4
    then have "g = handleSuiTx ?live" using assms(1) by (simp add: handlers_def)
    then have "handlers ?dry a = Some (handleSuiTx ?dry)"
      and "handleSuiTx ?dry cfg t' mp = Inr (h\<lparr>handler_target := dummyTarget\<rparr>)"
      using 4 assms(2) dry
      by (auto simp: handlers_def handleSuiTx_def new_handler_def split: sum.splits)
    then show ?thesis by blast
  next
    case 5
    then have "g = handleAptosTx ?live" using assms(1) by (simp add: handlers_def)
    then have "handlers ?dry a = Some (handleAptosTx ?dry)"
      and "handleAptosTx ?dry cfg t' mp = Inr (h\<lparr>handler_target := dummyTarget\<rparr>)"
      using 5 assms(2) dry
      by (auto simp: handlers_def handleAptosTx_def new_handler_def split: sum.splits)
    then show ?thesis by blast
  qed
qed

lemma wire_handler_dry_of_live:
  assumes "wire_handler (new_StaticJobRepository env False) jobDef d = Inr h"
  shows "wire_handler (new_StaticJobRepository env True) jobDef d =
           Inr (h\<lparr>handler_target := dummyTarget\<rparr>)"
proof -
  let ?cfg = "\<lparr>cfg_props = spread_rest (config d), cfg_commitment = source_commitment (jd_source jobDef),
      cfg_chainId = jd_chainId jobDef, cfg_chain = jd_chain jobDef, cfg_id = jd_id jobDef\<rparr>"
  obtain g where g: "handlers (new_StaticJobRepository env False) (action d) = Some g"
    using assms by (cases "handlers (new_StaticJobRepository env False) (action d)")
      (simp_all add: wire_handler_def)
  obtain mp where mp: "mappers (mapper d) = Some mp"
    using assms g by (cases "mappers (mapper d)") (simp_all add: wire_handler_def)
  have "g ?cfg (target d) mp = Inr h"
    using assms g mp by (simp add: wire_handler_def)
  then obtain f where "handlers (new_StaticJobRepository env True) (action d) = Some f"
    "f ?cfg (target d) mp = Inr (h\<lparr>handler_target := dummyTarget\<rparr>)"
    using factory_dry_of_live [OF g] by blast
  then show ?thesis using mp by (simp add: wire_handler_def)
qed

lemma getHandlers_loop_dry_of_live:
  "getHandlers_loop (new_StaticJobRepository env False) jobDef ds acc = Inr hs \<Longrightarrow>
   getHandlers_loop (new_StaticJobRepository env True) jobDef ds
       (map (\<lambda>h. h\<lparr>handler_target := dummyTarget\<rparr>) acc) =
     Inr (map (\<lambda>h. h\<lparr>handler_target := dummyTarget\<rparr>) hs)"
proof (induction ds arbitrary: acc)
  case Nil
  then show ?case by simp
next
  case (Cons d ds)
  show ?case
  proof (cases "wire_handler (new_StaticJobRepository env False) jobDef d")
    case (Inl e)
    then show ?thesis using Cons.prems by simp
  next
    case (Inr h)
    then have rest: "getHandlers_loop (new_StaticJobRepository env False) jobDef ds (acc @ [h]) = Inr hs"
      using Cons.prems by simp
    show ?thesis
      using Cons.IH [OF rest] wire_handler_dry_of_live [OF Inr] by simp
  qed
qed


lemma factory_dry_any_target:
  assumes "dryRun repo" "handlers repo a = Some f"
  shows "f cfg t mp = f cfg t' mp"
  using handlers_cases [OF assms(2)] assms(1)
  by (auto simp: handleEvmLogs_def handleEvmTransactions_def handleSolanaTx_def handleSuiTx_def
        handleAptosTx_def getTarget_def get_target_unchecked_def targets_dummy)

lemma wire_handler_dry_any_target:
  assumes "dryRun repo"
  shows "wire_handler repo (jobDef\<lparr>jd_handlers := x\<rparr>) (d\<lparr>target := t\<rparr>) = wire_handler repo jobDef d"
proof (cases "handlers repo (action d)")
  case None
  then show ?thesis by (simp add: wire_handler_def)
next
  case (Some f)
  show ?thesis
  proof (cases "mappers (mapper d)")
    case None
    then show ?thesis using Some by (simp add: wire_handler_def)
  next
    case (Some mp)
    then show ?thesis
      using \<open>handlers repo (action d) = Some f\<close>
        factory_dry_any_target [OF assms \<open>handlers repo (action d) = Some f\<close>, of _ t mp "target d"]
      by (simp add: wire_handler_def)
  qed
qed

lemma getHandlers_loop_dry_any_target:
  assumes "dryRun repo"
  shows "getHandlers_loop repo (jobDef\<lparr>jd_handlers := x\<rparr>) (map (\<lambda>d. d\<lparr>target := f d\<rparr>) ds) acc =
         getHandlers_loop repo jobDef ds acc"
proof (induction ds arbitrary: acc)
  case Nil
  then show ?case by simp
next
  case (Cons d ds)
  show ?case
  proof (cases "wire_handler repo jobDef d")
    case (Inl e)
    then show ?thesis by (simp add: wire_handler_dry_any_target [OF assms])
  next
    case (Inr h)
    then show ?thesis using Cons.IH by (simp add: wire_handler_dry_any_target [OF assms])
  qed
qed

lemma run_dummyTarget:
  "run_target dummyTarget events =
     [LogInfo (''[target dummy] Got '' @ show_nat (length events) @ '' events'')]"
  by (simp add: run_target_def)

text \<open>
  Claim C7. In a repository constructed with \<open>dryRun = true\<close>, every handler that
  \<open>getHandlers\<close> returns holds the dummy target, whose only effect is the log line with
  the number of events. The target names declared in the job definition play no part:
  replacing them by any others yields the same handlers. Towards the poller the handlers
  are those of the repository constructed with \<open>dryRun = false\<close>, with the same class,
  configuration and mapper, the target alone replaced. The flag is the one given to the
  constructor.
\<close>

theorem dry_run_handlers_deliver_to_dummy:
  assumes "getHandlers (new_StaticJobRepository env True) jobDef = Inr hs"
  shows "(\<forall>h\<in>set hs. handler_target h = dummyTarget) \<and>
         (\<forall>h\<in>set hs. \<forall>events :: 'e list. run_target (handler_target h) events =
             [LogInfo (''[target dummy] Got '' @ show_nat (length events) @ '' events'')]) \<and>
         (\<forall>f. getHandlers (new_StaticJobRepository env True)
                (jobDef\<lparr>jd_handlers := map (\<lambda>d. d\<lparr>target := f d\<rparr>) (jd_handlers jobDef)\<rparr>) = Inr hs) \<and>
         (\<forall>hs'. getHandlers (new_StaticJobRepository env False) jobDef = Inr hs' \<longrightarrow>
                hs = map (\<lambda>h. h\<lparr>handler_target := dummyTarget\<rparr>) hs')"
proof -
  have dry: "dryRun (new_StaticJobRepository env True)"
    by (simp add: new_StaticJobRepository_def)
  have 1: "\<forall>h\<in>set hs. handler_target h = dummyTarget"
    using getHandlers_loop_dry [OF dry, of jobDef "jd_handlers jobDef" "[]" hs] assms
    by (simp add: getHandlers_def)
  have 2: "\<forall>h\<in>set hs. \<forall>events :: 'e list. run_target (handler_target h) events =
             [LogInfo (''[target dummy] Got '' @ show_nat (length events) @ '' events'')]"
    using 1 by (simp add: run_dummyTarget)
  have 3: "\<forall>f. getHandlers (new_StaticJobRepository env True)
                (jobDef\<lparr>jd_handlers := map (\<lambda>d. d\<lparr>target := f d\<rparr>) (jd_handlers jobDef)\<rparr>) = Inr hs"
    using assms by (simp add: getHandlers_def getHandlers_loop_dry_any_target [OF dry])
  have 4: "\<forall>hs'. getHandlers (new_StaticJobRepository env False) jobDef = Inr hs' \<longrightarrow>
                hs = map (\<lambda>h. h\<lparr>handler_target := dummyTarget\<rparr>) hs'"
  proof (intro allI impI)
    fix hs' assume "getHandlers (new_StaticJobRepository env False) jobDef = Inr hs'"
    then have "getHandlers (new_StaticJobRepository env True) jobDef =
        Inr (map (\<lambda>h. h\<lparr>handler_target := dummyTarget\<rparr>) hs')"
      using getHandlers_loop_dry_of_live [of env jobDef "jd_handlers jobDef" "[]" hs']
      by (simp add: getHandlers_def)
    then show "hs = map (\<lambda>h. h\<lparr>handler_target := dummyTarget\<rparr>) hs'" using assms by simp
  qed
  show ?thesis by (intro conjI 1 2 3 4)
qed


lemma example_job_dry_run:
  "getHandlers (new_StaticJobRepository ''testnet'' True) example_job = Inr example_dry_handlers"
  by (simp add: getHandlers_def example_job_def wire_handler_def handlers_def mappers_def
        handleAptosTx_def handleEvmLogs_def new_handler_def getTarget_def get_target_unchecked_def
        targets_dummy new_StaticJobRepository_def example_dry_handlers_def example_config_def
        spread_rest_def)

theorem dry_run_handlers_deliver_to_dummy_witness:
  "getHandlers (new_StaticJobRepository ''testnet'' True) example_job = Inr example_dry_handlers \<and>
   map target (jd_handlers example_job) = [''sns'', ''kafka''] \<and>
   map handler_target example_dry_handlers = [dummyTarget, dummyTarget]"
proof -
  have "\<forall>h\<in>set example_dry_handlers. handler_target h = dummyTarget"
    using dry_run_handlers_deliver_to_dummy [OF example_job_dry_run] by blast
  then have "map handler_target example_dry_handlers = [dummyTarget, dummyTarget]"
    by (simp add: example_dry_handlers_def)
  moreover have "map target (jd_handlers example_job) = [''sns'', ''kafka'']"
    by (simp add: example_job_def)
  ultimately show ?thesis using example_job_dry_run by simp
qed

lemma factory_unknown_target:
  assumes "\<not> dryRun repo" "targets t = None" "handlers repo a = Some f"
  shows "\<exists>e. f cfg t mp = Inl e"
  using handlers_cases [OF assms(3)] assms(1,2)
  by (auto simp: handleEvmLogs_def handleEvmTransactions_def handleSolanaTx_def handleSuiTx_def
        handleAptosTx_def new_handler_def getTarget_def get_target_unchecked_def)

lemma wire_handler_unknown:
  assumes "handlers repo (action d) = None \<or> mappers (mapper d) = None \<or>
           (\<not> dryRun repo \<and> targets (target d) = None)"
  shows "\<exists>e. wire_handler repo jobDef d = Inl e"
proof (cases "handlers repo (action d)")
  case None
  then show ?thesis by (simp add: wire_handler_def)
next
  case (Some f)
  show ?thesis
  proof (cases "mappers (mapper d)")
    case None
    then show ?thesis using Some by (simp add: wire_handler_def)
  next
    case (Some mp)
    then have "\<not> dryRun repo" "targets (target d) = None"
      using assms \<open>handlers repo (action d) = Some f\<close> by auto
    then show ?thesis
      using factory_unknown_target [OF _ _ \<open>handlers repo (action d) = Some f\<close>, of "target d" _ mp]
        Some \<open>handlers repo (action d) = Some f\<close>
      by (simp add: wire_handler_def)
  qed
qed

lemma getHandlers_loop_unknown:
  assumes "d \<in> set ds" "\<exists>e. wire_handler repo jobDef d = Inl e"
  shows "\<exists>e. getHandlers_loop repo jobDef ds acc = Inl e"
  using assms(1)
proof (induction ds arbitrary: acc)
  case Nil
  then show ?case by simp
next
  case (Cons x xs)
  show ?case
  proof (cases "wire_handler repo jobDef x")
    case (Inl e)
    then show ?thesis by simp
  next
    case (Inr h)
    then have "d \<noteq> x" using assms(2) by auto
    then have "d \<in> set xs" using Cons.prems by simp
    then show ?thesis using Cons.IH [of "acc @ [h]"] Inr by simp
  qed
qed

text \<open>
  Claim C8, as stated, fails for the target: in dry-run mode the declared target name is
  never looked up, so the unregistered name \<open>kafka\<close> of the second handler of
  \<open>example_job\<close> is wired to the dummy target and \<open>getHandlers\<close> returns both
  handlers.
\<close>

theorem unknown_target_in_dry_run_counterexample:
  "targets (target (jd_handlers example_job ! 1)) = None \<and>
   getHandlers (new_StaticJobRepository ''testnet'' True) example_job =
     Inr [\<lparr>handler_class = HandleAptosTransactions, handler_config = example_config,
           handler_mapper = aptosLogMessagePublished, handler_target = dummyTarget\<rparr>,
          \<lparr>handler_class = HandleEvmLogs, handler_config = example_config,
           handler_mapper = evmLogMessagePublishedMapper, handler_target = dummyTarget\<rparr>]"
  by (simp add: getHandlers_def example_job_def wire_handler_def handlers_def mappers_def
        handleAptosTx_def handleEvmLogs_def new_handler_def getTarget_def get_target_unchecked_def
        targets_def new_StaticJobRepository_def example_config_def spread_rest_def)

text \<open>
  Claim C8, amended. \<open>getSource\<close> throws when the source action is not registered.
  \<open>getHandlers\<close> throws, and returns no handler at all, when some handler of the job
  has an action that is not registered, or a mapper name that is not registered, or, in a
  repository that is not in dry-run mode, a target name that is not registered.
\<close>

theorem unknown_names_fail_at_wiring:
  "(sources repo (source_action (jd_source jobDef)) = None \<longrightarrow>
      getSource repo jobDef =
        Inl (Error (''Source '' @ source_action (jd_source jobDef) @ '' not found''))) \<and>
   (\<forall>d\<in>set (jd_handlers jobDef).
      handlers repo (action d) = None \<or> mappers (mapper d) = None \<or>
      (\<not> dryRun repo \<and> targets (target d) = None) \<longrightarrow>
      (\<exists>e. getHandlers repo jobDef = Inl e))"
proof -
  have 1: "sources repo (source_action (jd_source jobDef)) = None \<longrightarrow>
      getSource repo jobDef =
        Inl (Error (''Source '' @ source_action (jd_source jobDef) @ '' not found''))"
    by (simp add: getSource_def)
  have 2: "\<forall>d\<in>set (jd_handlers jobDef).
      handlers repo (action d) = None \<or> mappers (mapper d) = None \<or>
      (\<not> dryRun repo \<and> targets (target d) = None) \<longrightarrow>
      (\<exists>e. getHandlers repo jobDef = Inl e)"
  proof (intro ballI impI)
    fix d assume d: "d \<in> set (jd_handlers jobDef)"
      and bad: "handlers repo (action d) = None \<or> mappers (mapper d) = None \<or>
        (\<not> dryRun repo \<and> targets (target d) = None)"
    show "\<exists>e. getHandlers repo jobDef = Inl e"
      unfolding getHandlers_def
      using getHandlers_loop_unknown [OF d wire_handler_unknown [OF bad]] .
  qed
  show ?thesis by (intro conjI 1 2)
qed

theorem unknown_names_fail_at_wiring_witness:
  "sources (new_StaticJobRepository ''testnet'' False) (source_action (jd_source unwired_job)) = None \<and>
   getSource (new_StaticJobRepository ''testnet'' False) unwired_job =
     Inl (Error ''Source PollCosmos not found'') \<and>
   targets (target (jd_handlers unwired_job ! 1)) = None \<and>
   (\<exists>e. getHandlers (new_StaticJobRepository ''testnet'' False) unwired_job = Inl e)"
proof -
  let ?repo = "new_StaticJobRepository ''testnet'' False"
  let ?d = "jd_handlers unwired_job ! 1"
  have src: "sources ?repo (source_action (jd_source unwired_job)) = None"
    by (simp add: sources_def unwired_job_def example_job_def)
  have act: "source_action (jd_source unwired_job) = ''PollCosmos''"
    by (simp add: unwired_job_def)
  have mem: "?d \<in> set (jd_handlers unwired_job)"
    by (simp add: unwired_job_def example_job_def)
  have tgt: "targets (target ?d) = None"
    by (simp add: unwired_job_def example_job_def targets_def)
  have live: "\<not> dryRun ?repo"
    by (simp add: new_StaticJobRepository_def)
  have "getSource ?repo unwired_job = Inl (Error ''Source PollCosmos not found'')"
    using unknown_names_fail_at_wiring [of ?repo unwired_job] src act by simp
  moreover have "\<exists>e. getHandlers ?repo unwired_job = Inl e"
    using unknown_names_fail_at_wiring [of ?repo unwired_job] mem tgt live by blast
  ultimately show ?thesis using src tgt by blast
qed

section \<open>Properties of Processor.Process\<close>

lemma Process_unfold:
  "Process p vaaBytes =
     (case Unmarshal p vaaBytes of
        Inl err \<Rightarrow> ([], (None, Some err))
      | Inr vaa \<Rightarrow>
         (case parse_call p vaa of
            Inl err \<Rightarrow>
              (if errors_Is err ErrInternalError \<or> errors_Is err ErrCallEndpoint
               then (fst (Process p vaaBytes), (None, Some err))
               else (fst (Process p vaaBytes), (None, None)))
          | Inr resp \<Rightarrow>
              (case UpsertParsedVaa p (parsed_update p vaa resp) of
                 Some err \<Rightarrow> (fst (Process p vaaBytes), (None, Some err))
               | None \<Rightarrow> (fst (Process p vaaBytes), (Some (parsed_update p vaa resp), None)))))"
  by (simp add: Process_def parse_call_def parsed_update_def Let_def split: sum.split option.split)


lemma errors_Is_sentinel_unique:
  "errors_Is err ErrNotFound \<Longrightarrow>
     \<not> errors_Is err ErrInternalError \<and> \<not> errors_Is err ErrCallEndpoint"
  by (induction err) auto

lemma Process_upsert_called:
  "fst (snd (Process p vaaBytes)) = Some u \<Longrightarrow> UpsertCall u \<in> set (fst (Process p vaaBytes))"
  by (auto simp: Process_def Let_def split: sum.splits option.splits if_splits)

text \<open>
  Claim C10. The return values of \<open>Process\<close> are determined as follows. Bytes that do
  not unmarshal: \<open>(nil, err)\<close>, nothing else done. A parser failure that is
  \<open>ErrInternalError\<close> or \<open>ErrCallEndpoint\<close>: \<open>(nil, err)\<close>, with the alert sent. Any
  other parser failure, \<open>ErrNotFound\<close> among them: \<open>(nil, nil)\<close>, with no alert. A
  failing upsert: \<open>(nil, err)\<close>, with the alert sent. A successful upsert: the update
  and a \<open>nil\<close> error. Conversely an error is returned only in the three failing cases
  named, and an update only with a \<open>nil\<close> error, after the repository was called with
  that update and returned no error.
\<close>

theorem Process_return_values:
  "(Unmarshal p vaaBytes = Inr v \<and> parse_call p v = Inl err \<and> errors_Is err ErrNotFound \<longrightarrow>
      snd (Process p vaaBytes) = (None, None)) \<and>
   (snd (snd (Process p vaaBytes)) = Some e \<longrightarrow>
      Unmarshal p vaaBytes = Inl e \<or>
      (\<exists>w. Unmarshal p vaaBytes = Inr w \<and> parse_call p w = Inl e \<and>
           (errors_Is e ErrInternalError \<or> errors_Is e ErrCallEndpoint)) \<or>
      (\<exists>w resp. Unmarshal p vaaBytes = Inr w \<and> parse_call p w = Inr resp \<and>
           UpsertParsedVaa p (parsed_update p w resp) = Some e)) \<and>
   (fst (snd (Process p vaaBytes)) = Some u \<longrightarrow>
      (\<exists>w resp. Unmarshal p vaaBytes = Inr w \<and> parse_call p w = Inr resp \<and>
           u = parsed_update p w resp \<and> UpsertParsedVaa p u = None) \<and>
      snd (snd (Process p vaaBytes)) = None \<and>
      UpsertCall u \<in> set (fst (Process p vaaBytes))) \<and>
   (Unmarshal p vaaBytes = Inl e \<longrightarrow> Process p vaaBytes = ([], (None, Some e))) \<and>
   (Unmarshal p vaaBytes = Inr v \<and> parse_call p v = Inl err \<and>
      (errors_Is err ErrInternalError \<or> errors_Is err ErrCallEndpoint) \<longrightarrow>
      snd (Process p vaaBytes) = (None, Some err) \<and>
      CreateAndSend AlertKeyVaaPayloadParserError
        [(''chainID'', ChainID_String p (vaa_EmitterChain v)),
         (''emitterAddress'', Address_String p (vaa_EmitterAddress v)),
         (''sequence'', show_nat (unat (vaa_Sequence v)))] err \<in> set (fst (Process p vaaBytes))) \<and>
   (Unmarshal p vaaBytes = Inr v \<and> parse_call p v = Inl err \<and>
      \<not> errors_Is err ErrInternalError \<and> \<not> errors_Is err ErrCallEndpoint \<longrightarrow>
      snd (Process p vaaBytes) = (None, None) \<and>
      (\<forall>k d x. CreateAndSend k d x \<notin> set (fst (Process p vaaBytes)))) \<and>
   (Unmarshal p vaaBytes = Inr v \<and> parse_call p v = Inr resp \<and>
      UpsertParsedVaa p (parsed_update p v resp) = Some e \<longrightarrow>
      snd (Process p vaaBytes) = (None, Some e) \<and>
      CreateAndSend AlertKeyInsertParsedVaaError
        [(''chainID'', ChainID_String p (vaa_EmitterChain v)),
         (''emitterAddress'', Address_String p (vaa_EmitterAddress v)),
         (''sequence'', show_nat (unat (vaa_Sequence v))),
         (''appID'', resp_AppID resp)] e \<in> set (fst (Process p vaaBytes))) \<and>
   (Unmarshal p vaaBytes = Inr v \<and> parse_call p v = Inr resp \<and>
      UpsertParsedVaa p (parsed_update p v resp) = None \<longrightarrow>
      snd (Process p vaaBytes) = (Some (parsed_update p v resp), None))"
proof -
  have 1: "Unmarshal p vaaBytes = Inr v \<and> parse_call p v = Inl err \<and> errors_Is err ErrNotFound \<longrightarrow>
      snd (Process p vaaBytes) = (None, None)"
    using errors_Is_sentinel_unique [of err]
    by (subst Process_unfold) auto
  have 2: "snd (snd (Process p vaaBytes)) = Some e \<longrightarrow>
      Unmarshal p vaaBytes = Inl e \<or>
      (\<exists>w. Unmarshal p vaaBytes = Inr w \<and> parse_call p w = Inl e \<and>
           (errors_Is e ErrInternalError \<or> errors_Is e ErrCallEndpoint)) \<or>
      (\<exists>w resp. Unmarshal p vaaBytes = Inr w \<and> parse_call p w = Inr resp \<and>
           UpsertParsedVaa p (parsed_update p w resp) = Some e)"
    by (subst Process_unfold) (auto split: sum.splits option.splits if_splits)
  have 3: "fst (snd (Process p vaaBytes)) = Some u \<longrightarrow>
      (\<exists>w resp. Unmarshal p vaaBytes = Inr w \<and> parse_call p w = Inr resp \<and>
           u = parsed_update p w resp \<and> UpsertParsedVaa p u = None)"
    by (subst Process_unfold) (auto split: sum.splits option.splits if_splits)
  have 4: "fst (snd (Process p vaaBytes)) = Some u \<longrightarrow> snd (snd (Process p vaaBytes)) = None"
    by (subst Process_unfold, subst (2) Process_unfold)
       (auto split: sum.splits option.splits if_splits)
  have 5: "fst (snd (Process p vaaBytes)) = Some u \<longrightarrow> UpsertCall u \<in> set (fst (Process p vaaBytes))"
    using Process_upsert_called [of p vaaBytes u] by blast
  have 6: "Unmarshal p vaaBytes = Inl e \<longrightarrow> Process p vaaBytes = ([], (None, Some e))"
    by (simp add: Process_def)
  have 7: "Unmarshal p vaaBytes = Inr v \<and> parse_call p v = Inl err \<and>
      (errors_Is err ErrInternalError \<or> errors_Is err ErrCallEndpoint) \<longrightarrow>
      snd (Process p vaaBytes) = (None, Some err) \<and>
      CreateAndSend AlertKeyVaaPayloadParserError
        [(''chainID'', ChainID_String p (vaa_EmitterChain v)),
         (''emitterAddress'', Address_String p (vaa_EmitterAddress v)),
         (''sequence'', show_nat (unat (vaa_Sequence v)))] err \<in> set (fst (Process p vaaBytes))"
    by (auto simp: Process_def parse_call_def Let_def)
  have 8: "Unmarshal p vaaBytes = Inr v \<and> parse_call p v = Inl err \<and>
      \<not> errors_Is err ErrInternalError \<and> \<not> errors_Is err ErrCallEndpoint \<longrightarrow>
      snd (Process p vaaBytes) = (None, None) \<and>
      (\<forall>k d x. CreateAndSend k d x \<notin> set (fst (Process p vaaBytes)))"
    by (auto simp: Process_def parse_call_def Let_def)
  have 9: "Unmarshal p vaaBytes = Inr v \<and> parse_call p v = Inr resp \<and>
      UpsertParsedVaa p (parsed_update p v resp) = Some e \<longrightarrow>
      snd (Process p vaaBytes) = (None, Some e) \<and>
      CreateAndSend AlertKeyInsertParsedVaaError
        [(''chainID'', ChainID_String p (vaa_EmitterChain v)),
         (''emitterAddress'', Address_String p (vaa_EmitterAddress v)),
         (''sequence'', show_nat (unat (vaa_Sequence v))),
         (''appID'', resp_AppID resp)] e \<in> set (fst (Process p vaaBytes))"
    by (auto simp: Process_def parse_call_def parsed_update_def Let_def)
  have 10: "Unmarshal p vaaBytes = Inr v \<and> parse_call p v = Inr resp \<and>
      UpsertParsedVaa p (parsed_update p v resp) = None \<longrightarrow>
      snd (Process p vaaBytes) = (Some (parsed_update p v resp), None)"
    by (auto simp: Process_def parse_call_def parsed_update_def Let_def)
  have 345: "fst (snd (Process p vaaBytes)) = Some u \<longrightarrow>
      (\<exists>w resp. Unmarshal p vaaBytes = Inr w \<and> parse_call p w = Inr resp \<and>
           u = parsed_update p w resp \<and> UpsertParsedVaa p u = None) \<and>
      snd (snd (Process p vaaBytes)) = None \<and>
      UpsertCall u \<in> set (fst (Process p vaaBytes))"
    using 3 4 5 by blast
  show ?thesis
    by (intro conjI 1 2 345 6 7 8 9 10)
qed


theorem Process_return_values_witness:
  "snd (Process (example_collaborators (Inl (Wrapped ''parse'' ErrNotFound)) None) [1]) = (None, None) \<and>
   snd (Process (example_collaborators (Inl ErrInternalError) None) [1]) = (None, Some ErrInternalError) \<and>
   snd (Process (example_collaborators (Inl (Wrapped ''post'' ErrCallEndpoint)) None) [1]) =
     (None, Some (Wrapped ''post'' ErrCallEndpoint)) \<and>
   Process (example_collaborators (Inl ErrNotFound) None) [] = ([], (None, Some (OtherError ''EOF''))) \<and>
   snd (Process (example_collaborators
         (Inr \<lparr>resp_AppID = ''PORTAL_TOKEN_BRIDGE'', resp_Result = ''{}''\<rparr>)
         (Some (OtherError ''mongo''))) [1]) = (None, Some (OtherError ''mongo'')) \<and>
   (\<exists>u. snd (Process (example_collaborators
            (Inr \<lparr>resp_AppID = ''PORTAL_TOKEN_BRIDGE'', resp_Result = ''{}''\<rparr>) None) [1]) =
          (Some u, None) \<and>
        UpsertParsedVaa (example_collaborators
            (Inr \<lparr>resp_AppID = ''PORTAL_TOKEN_BRIDGE'', resp_Result = ''{}''\<rparr>) None) u = None \<and>
        AppID u = ''PORTAL_TOKEN_BRIDGE'' \<and> Sequence u = ''146094'')"
proof -
  let ?resp = "\<lparr>resp_AppID = ''PORTAL_TOKEN_BRIDGE'', resp_Result = ''{}''\<rparr>"
  let ?nf = "example_collaborators (Inl (Wrapped ''parse'' ErrNotFound)) None"
  let ?ie = "example_collaborators (Inl ErrInternalError) None"
  let ?ce = "example_collaborators (Inl (Wrapped ''post'' ErrCallEndpoint)) None"
  let ?bad = "example_collaborators (Inl ErrNotFound) None"
  let ?db = "example_collaborators (Inr ?resp) (Some (OtherError ''mongo''))"
  let ?ok = "example_collaborators (Inr ?resp) None"
  have "Unmarshal ?nf [1] = Inr example_vaa"
    "parse_call ?nf example_vaa = Inl (Wrapped ''parse'' ErrNotFound)"
    "errors_Is (Wrapped ''parse'' ErrNotFound) ErrNotFound"
    by (simp_all add: example_collaborators_def parse_call_def)
  then have a: "snd (Process ?nf [1]) = (None, None)"
    using Process_return_values
      [where p = ?nf and vaaBytes = "[1]" and v = example_vaa and err = "Wrapped ''parse'' ErrNotFound"]
    by blast
  have "Unmarshal ?ie [1] = Inr example_vaa" "parse_call ?ie example_vaa = Inl ErrInternalError"
    "errors_Is ErrInternalError ErrInternalError"
    by (simp_all add: example_collaborators_def parse_call_def)
  then have b: "snd (Process ?ie [1]) = (None, Some ErrInternalError)"
    using Process_return_values
      [where p = ?ie and vaaBytes = "[1]" and v = example_vaa and err = ErrInternalError]
    by blast
  have "Unmarshal ?ce [1] = Inr example_vaa"
    "parse_call ?ce example_vaa = Inl (Wrapped ''post'' ErrCallEndpoint)"
    "errors_Is (Wrapped ''post'' ErrCallEndpoint) ErrCallEndpoint"
    by (simp_all add: example_collaborators_def parse_call_def)
  then have c: "snd (Process ?ce [1]) = (None, Some (Wrapped ''post'' ErrCallEndpoint))"
    using Process_return_values
      [where p = ?ce and vaaBytes = "[1]" and v = example_vaa and err = "Wrapped ''post'' ErrCallEndpoint"]
    by blast
  have "Unmarshal ?bad [] = Inl (OtherError ''EOF'')"
    by (simp add: example_collaborators_def)
  then have d: "Process ?bad [] = ([], (None, Some (OtherError ''EOF'')))"
    using Process_return_values [where p = ?bad and vaaBytes = "[]" and e = "OtherError ''EOF''"]
    by blast
  have "Unmarshal ?db [1] = Inr example_vaa" "parse_call ?db example_vaa = Inr ?resp"
    "UpsertParsedVaa ?db (parsed_update ?db example_vaa ?resp) = Some (OtherError ''mongo'')"
    by (simp_all add: example_collaborators_def parse_call_def)
  then have e: "snd (Process ?db [1]) = (None, Some (OtherError ''mongo''))"
    using Process_return_values
      [where p = ?db and vaaBytes = "[1]" and v = example_vaa and resp = ?resp
         and e = "OtherError ''mongo''"]
    by blast
  let ?u = "parsed_update ?ok example_vaa ?resp"
  have ok: "Unmarshal ?ok [1] = Inr example_vaa" "parse_call ?ok example_vaa = Inr ?resp"
    "UpsertParsedVaa ?ok ?u = None"
    by (simp_all add: example_collaborators_def parse_call_def)
  then have f: "snd (Process ?ok [1]) = (Some ?u, None)"
    using Process_return_values
      [where p = ?ok and vaaBytes = "[1]" and v = example_vaa and resp = ?resp]
    by blast
  have seq: "show_nat (unat (146094 :: 64 word)) = ''146094''"
    by (simp add: show_nat.simps digit_def)
  have g: "AppID ?u = ''PORTAL_TOKEN_BRIDGE''" "Sequence ?u = ''146094''"
    using seq by (simp_all add: parsed_update_def example_vaa_def)
  have "\<exists>u. snd (Process ?ok [1]) = (Some u, None) \<and> UpsertParsedVaa ?ok u = None \<and>
        AppID u = ''PORTAL_TOKEN_BRIDGE'' \<and> Sequence u = ''146094''"
    using f ok(3) g by blast
  then show ?thesis using a b c d e by blast
qed

end
